theory Spec2Isabelle
  imports Complex_Main "HOL-Library.Sublist"
begin

section \<open>Python primitives used by the relay\<close>

text \<open>
  A Python \<open>bytes\<close>/\<open>bytearray\<close> value is a list of 8-bit characters; header strings are
  ASCII, so \<open>str\<close> values are character lists as well. Wall-clock readings
  (\<open>time.time()\<close>) and durations are exact rationals: floating-point rounding is not
  modelled.
\<close>

type_synonym bytes = "char list"

definition CRLF :: bytes where
  "CRLF = [CHR 0x0D, CHR 0x0A]"

text \<open>\<open>sub in s\<close> on strings is \<^const>\<open>sublist\<close>. \<open>s.lower()\<close>, on ASCII letters:\<close>

definition lower_char :: "char \<Rightarrow> char" where
  "lower_char c =
     (let n = (of_char c :: nat) in if 65 \<le> n \<and> n \<le> 90 then char_of (n + 32) else c)"

definition lower :: "string \<Rightarrow> string" where
  "lower s = map lower_char s"

text \<open>\<open>str(n)\<close> and the f-string rendering \<open>{n}\<close> of an integer: decimal digits.\<close>

definition digit_char :: "nat \<Rightarrow> char" where
  "digit_char d = ''0123456789'' ! d"

fun str_nat :: "nat \<Rightarrow> string" where
  "str_nat n = (if n < 10 then [digit_char n] else str_nat (n div 10) @ [digit_char (n mod 10)])"

declare str_nat.simps [simp del]

definition str_int :: "int \<Rightarrow> string" where
  "str_int i = (if i < 0 then CHR ''-'' # str_nat (nat (- i)) else str_nat (nat i))"




text \<open>\<open>int(x)\<close> on a float truncates toward zero.\<close>

definition py_trunc :: "rat \<Rightarrow> int" where
  "py_trunc r = (if 0 \<le> r then \<lfloor>r\<rfloor> else \<lceil>r\<rceil>)"

text \<open>
  \<open>buf.find(sub, start)\<close>: the lowest index \<open>\<ge> start\<close> at which \<open>sub\<close> occurs, or \<open>-1\<close>.
  A negative \<open>start\<close> counts from the end, as in slicing.
\<close>

fun find_first :: "'a list \<Rightarrow> 'a list \<Rightarrow> nat option" where
  "find_first sub [] = (if sub = [] then Some 0 else None)"
| "find_first sub (x # xs) =
     (if prefix sub (x # xs) then Some 0 else map_option Suc (find_first sub xs))"

definition py_find :: "'a list \<Rightarrow> 'a list \<Rightarrow> int \<Rightarrow> int" where
  "py_find buf sub start =
     (let n = int (length buf);
          s = (if start < 0 then max 0 (n + start) else start)
      in if n < s then - 1
         else (case find_first sub (drop (nat s) buf) of
                 None \<Rightarrow> - 1
               | Some i \<Rightarrow> s + int i))"

text \<open>\<open>xs[i:j]\<close> for non-negative \<open>i\<close>, \<open>j\<close> (the only slices the relay takes).\<close>

definition slice :: "'a list \<Rightarrow> int \<Rightarrow> int \<Rightarrow> 'a list" where
  "slice xs i j = take (nat j - nat i) (drop (nat i) xs)"

lemma find_first_bound:
  "find_first sub xs = Some i \<Longrightarrow> i + length sub \<le> length xs"
proof (induction xs arbitrary: i)
  case Nil
  then show ?case by (simp split: if_splits)
next
  case (Cons x xs)
  then show ?case
    by (auto split: if_splits dest: prefix_length_le)
qed

lemma py_find_range:
  assumes "py_find buf sub start \<noteq> - 1"
  shows "0 \<le> py_find buf sub start \<and>
         py_find buf sub start + int (length sub) \<le> int (length buf)"
  using assms
  by (auto simp: py_find_def Let_def split: option.splits if_splits dest!: find_first_bound)


section \<open>FrameExtractor\<close>

definition SOI :: bytes where
  "SOI = [CHR 0xFF, CHR 0xD8]"

definition EOI :: bytes where
  "EOI = [CHR 0xFF, CHR 0xD9]"

subsection \<open>\<open>ef.py\<close>, \<open>generate\<close>: the \<open>while True\<close> extraction loop\<close>

text \<open>
  The loop searches the buffer for \<open>SOI\<close> and for \<open>EOI\<close> from \<open>start + 2\<close>; when both
  are found it cuts the frame \<open>buffer[start:end+2]\<close>, deletes \<open>buffer[:end+2]\<close> and
  iterates; otherwise it breaks. The per-frame work between the deletion and the next
  iteration (pacing, transcoding, the \<open>yield\<close>) never touches the buffer; it is
  \<open>frame_body\<close> below. The result is the extracted frames in order and the buffer left.
\<close>

function extract_frames :: "bytes \<Rightarrow> bytes list \<times> bytes" where
  "extract_frames buffer =
     (let start = py_find buffer SOI 0;
          end = py_find buffer EOI (start + 2)
      in if start \<noteq> - 1 \<and> end \<noteq> - 1 then
           (slice buffer start (end + 2) # fst (extract_frames (drop (nat (end + 2)) buffer)),
            snd (extract_frames (drop (nat (end + 2)) buffer)))
         else ([], buffer))"
  by pat_completeness auto
termination
proof (relation "measure length")
  show "wf (measure length)" by simp
next
  fix buffer :: bytes and s e
  assume "s = py_find buffer SOI 0" "e = py_find buffer EOI (s + 2)"
    "s \<noteq> - 1 \<and> e \<noteq> - 1"
  then have "0 \<le> e \<and> e + int (length EOI) \<le> int (length buffer)"
    using py_find_range by blast
  then show "(drop (nat (e + 2)) buffer, buffer) \<in> measure length"
    by (auto simp: EOI_def)
next
  fix buffer :: bytes and s e
  assume "s = py_find buffer SOI 0" "e = py_find buffer EOI (s + 2)"
    "s \<noteq> - 1 \<and> e \<noteq> - 1"
  then have "0 \<le> e \<and> e + int (length EOI) \<le> int (length buffer)"
    using py_find_range by blast
  then show "(drop (nat (e + 2)) buffer, buffer) \<in> measure length"
    by (auto simp: EOI_def)
qed

declare extract_frames.simps [simp del]

text \<open>One pass of the \<open>async for\<close> body: \<open>buffer.extend(chunk)\<close>, then the loop.\<close>

definition feed :: "bytes \<Rightarrow> bytes \<Rightarrow> bytes list \<times> bytes" where
  "feed buffer chunk = extract_frames (buffer @ chunk)"

text \<open>The \<open>async for chunk in ...\<close> loop, which breaks on an empty chunk.\<close>

fun pump :: "bytes \<Rightarrow> bytes list \<Rightarrow> bytes list \<times> bytes" where
  "pump buffer [] = ([], buffer)"
| "pump buffer (chunk # chunks) =
     (if chunk = [] then ([], buffer)
      else (fst (feed buffer chunk) @ fst (pump (snd (feed buffer chunk)) chunks),
            snd (pump (snd (feed buffer chunk)) chunks)))"

text \<open>
  The test at the head of the loop, as a function of the buffer: the bounds \<open>start\<close> and
  \<open>end + 2\<close> of the first complete frame, if there is one. It is used to reason about
  \<open>extract_frames\<close>.
\<close>

definition frame_at :: "bytes \<Rightarrow> (int \<times> int) option" where
  "frame_at buffer =
     (let start = py_find buffer SOI 0;
          end = py_find buffer EOI (start + 2)
      in if start \<noteq> - 1 \<and> end \<noteq> - 1 then Some (start, end + 2) else None)"

subsection \<open>\<open>webrtc_viewer.py\<close>, \<open>extract_jpeg_frame\<close>\<close>

text \<open>
  The method appends \<open>data\<close> to \<open>self.frame_buffer\<close> and returns at most one frame; the
  model returns the result and the new \<open>frame_buffer\<close>.
\<close>

definition extract_jpeg_frame :: "bytes \<Rightarrow> bytes \<Rightarrow> bytes option \<times> bytes" where
  "extract_jpeg_frame frame_buffer data =
     (let fb = frame_buffer @ data;
          start_idx = py_find fb SOI 0
      in if start_idx = - 1 then (None, fb)
         else let end_idx = py_find fb EOI (start_idx + 2)
              in if end_idx = - 1 then (None, fb)
                 else (Some (slice fb start_idx (end_idx + 2)), drop (nat (end_idx + 2)) fb))"

text \<open>Calling it once per chunk, collecting the frames it returns.\<close>

fun feed_jpeg :: "bytes \<Rightarrow> bytes list \<Rightarrow> bytes list \<times> bytes" where
  "feed_jpeg frame_buffer [] = ([], frame_buffer)"
| "feed_jpeg frame_buffer (data # rest) =
     (case extract_jpeg_frame frame_buffer data of
        (None, fb) \<Rightarrow> feed_jpeg fb rest
      | (Some jpeg_frame, fb) \<Rightarrow>
          (jpeg_frame # fst (feed_jpeg fb rest), snd (feed_jpeg fb rest)))"


section \<open>RateGovernor\<close>

datatype decision = Emit | Delay rat | Drop

text \<open>Truth value of an \<open>Optional[float]\<close>: \<open>None\<close> and \<open>0.0\<close> are false.\<close>

definition truthy :: "rat option \<Rightarrow> bool" where
  "truthy fps_limit = (case fps_limit of None \<Rightarrow> False | Some f \<Rightarrow> f \<noteq> 0)"

text \<open>
  \<open>(1.0 / float(fps_limit)) if fps_limit else 0.0\<close>. Here and in the decisions below the
  arithmetic is exact: the model says which branch is taken and which delay is requested,
  not what the program's doubles round to.
\<close>

definition frame_interval_of :: "rat option \<Rightarrow> rat" where
  "frame_interval_of fps_limit =
     (case fps_limit of None \<Rightarrow> 0 | Some f \<Rightarrow> if f \<noteq> 0 then 1 / f else 0)"

text \<open>
  The clock is read twice for a frame that is not dropped: \<open>now = time.time()\<close> before the
  decision, and again when the last-emit time is stored. A timing gives, for the \<open>k\<close>-th
  item, the first reading and the time that passed between the two readings beyond the
  requested sleep (transcoding, scheduling).
\<close>

type_synonym timing = "nat \<Rightarrow> rat \<times> rat"

definition clock_after :: "decision \<Rightarrow> rat \<Rightarrow> rat \<Rightarrow> rat" where
  "clock_after dec now lag = (case dec of Delay d \<Rightarrow> now + d + lag | _ \<Rightarrow> now + lag)"

subsection \<open>\<open>ef.py\<close>, \<open>generate\<close>: FPS control of a frame\<close>

definition generate_decide :: "rat \<Rightarrow> string \<Rightarrow> rat \<Rightarrow> rat \<Rightarrow> decision" where
  "generate_decide frame_interval drop_strategy last_sent now =
     (if frame_interval > 0 then
        let delta = now - last_sent
        in if delta < frame_interval then
             (if drop_strategy = ''latest'' then Drop
              else if drop_strategy = ''oldest'' then Delay (frame_interval - delta)
              else Delay (frame_interval - delta))
           else Emit
      else Emit)"

subsection \<open>\<open>fastapi_viewer.py\<close>, \<open>stream_with_fps_limit\<close>: FPS limiting of a chunk\<close>

definition fv_decide :: "rat option \<Rightarrow> string \<Rightarrow> rat \<Rightarrow> rat \<Rightarrow> decision" where
  "fv_decide fps_limit drop_strategy last_frame_time current_time =
     (let frame_interval = frame_interval_of fps_limit
      in if truthy fps_limit then
           if current_time - last_frame_time < frame_interval then
             (if drop_strategy = ''latest'' then Drop
              else if drop_strategy = ''oldest'' then Drop
              else let sleep_time = frame_interval - (current_time - last_frame_time)
                   in if sleep_time > 0 then Delay sleep_time else Emit)
           else Emit
         else Emit)"

text \<open>
  The chunk loop: an empty chunk breaks; a dropped chunk leaves \<open>last_frame_time\<close> as it
  is; otherwise \<open>last_frame_time\<close> is set from the clock (only under \<open>if fps_limit\<close>) and
  the chunk is yielded. The result is the chunks yielded.
\<close>

fun fv_chunk_loop ::
  "rat option \<Rightarrow> string \<Rightarrow> timing \<Rightarrow> nat \<Rightarrow> rat \<Rightarrow> bytes list \<Rightarrow> bytes list" where
  "fv_chunk_loop fps_limit drop_strategy tm k last_frame_time [] = []"
| "fv_chunk_loop fps_limit drop_strategy tm k last_frame_time (chunk # chunks) =
     (if chunk = [] then []
      else let dec = fv_decide fps_limit drop_strategy last_frame_time (fst (tm k))
           in if dec = Drop
              then fv_chunk_loop fps_limit drop_strategy tm (Suc k) last_frame_time chunks
              else chunk # fv_chunk_loop fps_limit drop_strategy tm (Suc k)
                     (if truthy fps_limit then clock_after dec (fst (tm k)) (snd (tm k))
                      else last_frame_time)
                     chunks)"

subsection \<open>\<open>ef.py\<close>, \<open>stream_with_fps_limit\<close>: the same with a quality multiplier\<close>

definition quality_multiplier :: "string \<Rightarrow> rat" where
  "quality_multiplier quality =
     (if quality = ''high'' then 1
      else if quality = ''medium'' then 9 / 10
      else if quality = ''low'' then 8 / 10
      else 1)"

definition ef_decide :: "rat option \<Rightarrow> string \<Rightarrow> string \<Rightarrow> rat \<Rightarrow> rat \<Rightarrow> decision" where
  "ef_decide fps_limit drop_strategy quality last_frame_time current_time =
     (let frame_interval = frame_interval_of fps_limit
      in if truthy fps_limit then
           if current_time - last_frame_time < frame_interval then
             (if drop_strategy = ''latest'' then Drop
              else if drop_strategy = ''oldest'' then Drop
              else let sleep_time = frame_interval * quality_multiplier quality
                                      - (current_time - last_frame_time)
                   in if sleep_time > 0 then Delay sleep_time else Emit)
           else Emit
         else Emit)"

fun ef_chunk_loop ::
  "rat option \<Rightarrow> string \<Rightarrow> string \<Rightarrow> timing \<Rightarrow> nat \<Rightarrow> rat \<Rightarrow> bytes list \<Rightarrow> bytes list" where
  "ef_chunk_loop fps_limit drop_strategy quality tm k last_frame_time [] = []"
| "ef_chunk_loop fps_limit drop_strategy quality tm k last_frame_time (chunk # chunks) =
     (if chunk = [] then []
      else let dec = ef_decide fps_limit drop_strategy quality last_frame_time (fst (tm k))
           in if dec = Drop
              then ef_chunk_loop fps_limit drop_strategy quality tm (Suc k) last_frame_time chunks
              else chunk # ef_chunk_loop fps_limit drop_strategy quality tm (Suc k)
                     (if truthy fps_limit then clock_after dec (fst (tm k)) (snd (tm k))
                      else last_frame_time)
                     chunks)"


section \<open>FrameTranscoder and multipart framing (\<open>ef.py\<close>, \<open>generate\<close>)\<close>

text \<open>
  OpenCV is a parameter. Each of its calls may raise: \<open>Inl\<close> carries the message of the
  exception, which nothing in the frame loop catches, so that it reaches the handler at
  the end of \<open>generate\<close>. Otherwise \<open>cv2.imdecode\<close> returns an image, or \<open>None\<close> on data
  it cannot decode; \<open>cv2.resize\<close> returns an image; \<open>cv2.imencode\<close> returns the flag \<open>ok\<close>
  with the encoded bytes (\<open>Inr None\<close> is \<open>ok = False\<close>).
\<close>

record 'img codec =
  imdecode :: "bytes \<Rightarrow> string + 'img option"
  resize :: "'img \<Rightarrow> int \<times> int \<Rightarrow> string + 'img"
  imencode :: "'img \<Rightarrow> int \<Rightarrow> string + bytes option"

definition quality_map :: "string \<rightharpoonup> int" where
  "quality_map = [''high'' \<mapsto> 90, ''medium'' \<mapsto> 75, ''low'' \<mapsto> 60]"

definition jpeg_quality_of :: "string \<Rightarrow> int" where
  "jpeg_quality_of quality = (case quality_map quality of Some q \<Rightarrow> q | None \<Rightarrow> 85)"

text \<open>What \<open>stream_video\<close> computes once and \<open>generate\<close> closes over.\<close>

record stream_cfg =
  droidcam_url :: string
  target_size :: "(int \<times> int) option"
  quality :: string
  jpeg_quality :: int
  frame_interval :: rat
  drop_strategy :: string

definition transcode :: "'img codec \<Rightarrow> stream_cfg \<Rightarrow> bytes \<Rightarrow> string + bytes" where
  "transcode cd cfg frame_bytes =
     (if target_size cfg \<noteq> None \<or> quality_map (quality cfg) \<noteq> None then
        (case imdecode cd frame_bytes of
           Inl err \<Rightarrow> Inl err
         | Inr None \<Rightarrow> Inr frame_bytes
         | Inr (Some img) \<Rightarrow>
             (case (case target_size cfg of
                      None \<Rightarrow> Inr img
                    | Some sz \<Rightarrow> resize cd img sz) of
                Inl err \<Rightarrow> Inl err
              | Inr img' \<Rightarrow>
                  (case imencode cd img' (jpeg_quality cfg) of
                     Inl err \<Rightarrow> Inl err
                   | Inr (Some enc) \<Rightarrow> Inr enc
                   | Inr None \<Rightarrow> Inr frame_bytes)))
      else Inr frame_bytes)"

definition multipart_part :: "bytes \<Rightarrow> bytes" where
  "multipart_part frame_bytes =
     ''--frame'' @ CRLF @
     ''Content-Type: image/jpeg'' @ CRLF @
     ''Content-Length: '' @ str_nat (length frame_bytes) @ CRLF @ CRLF @
     frame_bytes @ CRLF"

text \<open>
  The work on one extracted frame. \<open>Inl\<close> is an exception leaving the loop; otherwise the
  part yielded (none for a dropped frame) and the new \<open>last_sent\<close>.
\<close>

definition frame_body ::
  "'img codec \<Rightarrow> stream_cfg \<Rightarrow> rat \<Rightarrow> rat \<times> rat \<Rightarrow> bytes \<Rightarrow> string + (bytes option \<times> rat)" where
  "frame_body cd cfg last_sent tk frame_bytes =
     (let now = fst tk;
          dec = generate_decide (frame_interval cfg) (drop_strategy cfg) last_sent now
      in if dec = Drop then Inr (None, last_sent)
         else (case transcode cd cfg frame_bytes of
                 Inl err \<Rightarrow> Inl err
               | Inr fb \<Rightarrow> Inr (Some (multipart_part fb), clock_after dec now (snd tk))))"

text \<open>
  The frames of a session in order: the parts yielded, each with the \<open>last_sent\<close> stored
  for it, and the exception that ended the session, if any.
\<close>

fun relay_frames ::
  "'img codec \<Rightarrow> stream_cfg \<Rightarrow> timing \<Rightarrow> nat \<Rightarrow> rat \<Rightarrow> bytes list \<Rightarrow>
     (bytes \<times> rat) list \<times> string option" where
  "relay_frames cd cfg tm k last_sent [] = ([], None)"
| "relay_frames cd cfg tm k last_sent (frame_bytes # frames) =
     (case frame_body cd cfg last_sent (tm k) frame_bytes of
        Inl err \<Rightarrow> ([], Some err)
      | Inr (None, ls) \<Rightarrow> relay_frames cd cfg tm (Suc k) ls frames
      | Inr (Some part, ls) \<Rightarrow>
          ((part, ls) # fst (relay_frames cd cfg tm (Suc k) ls frames),
           snd (relay_frames cd cfg tm (Suc k) ls frames)))"


section \<open>The upstream and the sessions\<close>

text \<open>
  What a \<open>session.get(url)\<close> gives: an exception, or a response with its status, its
  \<open>content-type\<close> header if present, the chunks its body delivers and the exception that
  ends the body, if any.
\<close>

record response =
  status :: int
  content_type :: "string option"
  chunks :: "bytes list"
  read_error :: "string option"

datatype fetch = Raised string | Got response

text \<open>\<open>response.headers.get('content-type', '').lower()\<close>\<close>

definition content_type_lower :: "response \<Rightarrow> string" where
  "content_type_lower r = lower (case content_type r of None \<Rightarrow> [] | Some v \<Rightarrow> v)"

definition mjpeg_type :: "string \<Rightarrow> bool" where
  "mjpeg_type ct = (sublist ''multipart/x-mixed-replace'' ct \<or> sublist ''image/jpeg'' ct)"

subsection \<open>\<open>ef.py\<close>, \<open>stream_video\<close> and its \<open>generate\<close>\<close>

definition generate :: "(string \<Rightarrow> fetch) \<Rightarrow> 'img codec \<Rightarrow> stream_cfg \<Rightarrow> timing \<Rightarrow> bytes list" where
  "generate session_get cd cfg tm =
     (case session_get (droidcam_url cfg) of
        Raised err \<Rightarrow> [''Stream error: '' @ err]
      | Got response \<Rightarrow>
          let ct = content_type_lower response
          in if status response \<noteq> 200 then [''DroidCam status '' @ str_int (status response)]
             else if sublist ''text/html'' ct
             then [''DroidCam returned HTML, not MJPEG. Check app permissions/state.'']
             else (case relay_frames cd cfg tm 0 0 (fst (pump [] (chunks response))) of
                     (outs, Some err) \<Rightarrow> map fst outs @ [''Stream error: '' @ err]
                   | (outs, None) \<Rightarrow>
                       map fst outs @
                       (case read_error response of
                          None \<Rightarrow> []
                        | Some err \<Rightarrow>
                            if [] \<in> set (chunks response) then []
                            else [''Stream error: '' @ err])))"

text \<open>\<open>w, h = s.split("x")\<close> succeeds when \<open>s\<close> has exactly one \<open>x\<close>.\<close>

definition split_x :: "string \<Rightarrow> (string \<times> string) option" where
  "split_x s =
     (if count_list s (CHR ''x'') = 1
      then Some (takeWhile (\<lambda>c. c \<noteq> CHR ''x'') s, tl (dropWhile (\<lambda>c. c \<noteq> CHR ''x'') s))
      else None)"

fun join :: "string \<Rightarrow> string list \<Rightarrow> string" where
  "join sep [] = []"
| "join sep [x] = x"
| "join sep (x # y # ys) = x @ sep @ join sep (y # ys)"

definition droidcam_url_of :: "string \<Rightarrow> int \<Rightarrow> rat option \<Rightarrow> string \<Rightarrow> string" where
  "droidcam_url_of ip port fps_limit resolution =
     (let base = ''http://'' @ ip @ '':'' @ str_int port @ ''/video'';
          size_params =
            (if resolution \<noteq> [] \<and> lower resolution \<noteq> ''auto'' then
               (case split_x (lower resolution) of
                  Some (w, h) \<Rightarrow>
                    [''width='' @ w, ''height='' @ h,
                     ''resolution='' @ resolution, ''size='' @ resolution]
                | None \<Rightarrow> [])
             else []);
          fps_params =
            (case fps_limit of
               None \<Rightarrow> []
             | Some f \<Rightarrow>
                 if f \<noteq> 0 then
                   [''fps='' @ str_int (py_trunc f), ''framerate='' @ str_int (py_trunc f),
                    ''rate='' @ str_int (py_trunc f)]
                 else []);
          params = size_params @ fps_params
      in if params \<noteq> [] then base @ ''?'' @ join ''&'' params else base)"

text \<open>\<open>py_int\<close> is Python's \<open>int(str)\<close>, \<open>None\<close> where it raises \<open>ValueError\<close>.\<close>

definition target_size_of :: "(string \<Rightarrow> int option) \<Rightarrow> string \<Rightarrow> (int \<times> int) option" where
  "target_size_of py_int resolution =
     (if resolution \<noteq> [] \<and> lower resolution \<noteq> ''auto'' then
        (case split_x (lower resolution) of
           Some (w, h) \<Rightarrow>
             (case py_int w of
                None \<Rightarrow> None
              | Some a \<Rightarrow> (case py_int h of None \<Rightarrow> None | Some b \<Rightarrow> Some (a, b)))
         | None \<Rightarrow> None)
      else None)"

definition stream_cfg_of ::
  "(string \<Rightarrow> int option) \<Rightarrow> string \<Rightarrow> int \<Rightarrow> rat option \<Rightarrow> string \<Rightarrow> string \<Rightarrow> string \<Rightarrow>
     stream_cfg" where
  "stream_cfg_of py_int ip port fps_limit drop_strat resolution qual =
     \<lparr>droidcam_url = droidcam_url_of ip port fps_limit resolution,
      target_size = target_size_of py_int resolution,
      quality = qual,
      jpeg_quality = jpeg_quality_of qual,
      frame_interval = frame_interval_of fps_limit,
      drop_strategy = drop_strat\<rparr>"

definition stream_video ::
  "(string \<Rightarrow> fetch) \<Rightarrow> 'img codec \<Rightarrow> (string \<Rightarrow> int option) \<Rightarrow> timing \<Rightarrow>
     string \<Rightarrow> int \<Rightarrow> rat option \<Rightarrow> string \<Rightarrow> string \<Rightarrow> string \<Rightarrow> bytes list" where
  "stream_video session_get cd py_int tm ip port fps_limit drop_strat resolution qual =
     generate session_get cd
       (stream_cfg_of py_int ip port fps_limit drop_strat resolution qual) tm"

text \<open>The defaults of the query parameters of \<open>/stream\<close>.\<close>

definition default_port :: int where "default_port = 4747"
definition default_fps_limit :: "rat option" where "default_fps_limit = None"
definition default_drop_strategy :: string where "default_drop_strategy = ''none''"
definition default_resolution :: string where "default_resolution = ''auto''"
definition default_quality :: string where "default_quality = ''high''"

subsection \<open>\<open>ef.py\<close>, \<open>stream_with_fps_limit\<close>\<close>

definition stream_endpoints :: "string \<Rightarrow> int \<Rightarrow> string list" where
  "stream_endpoints ip port =
     (let base = ''http://'' @ ip @ '':'' @ str_int port
      in [base @ ''/mjpegfeed'', base @ ''/video'', base @ ''/cam/1/stream'',
          base @ ''/cam/1/mjpeg'', base @ ''/'', base @ ''/stream''])"

definition error_msg :: "string \<Rightarrow> int \<Rightarrow> string" where
  "error_msg ip port =
     ''No DroidCam streams found at '' @ ip @ '':'' @ str_int port @
     ''. Check: 1) DroidCam app is running 2) Phone IP is correct 3) Same WiFi network''"

datatype outcome = Returned | HTTPException int string

text \<open>
  The \<open>for endpoint in endpoints\<close> loop: the URLs requested in order, the chunks yielded,
  and whether the generator returned from inside the loop. A non-200 status and an
  exception continue with the next endpoint; so does a wrong content type; an exception
  raised by the body after some chunks were yielded is caught by the same handler. The
  chunk size passed to \<open>iter_chunked\<close> and the statistics counters do not influence
  what is requested or yielded and are left out.
\<close>

fun try_endpoints ::
  "(string \<Rightarrow> fetch) \<Rightarrow> (string \<Rightarrow> timing) \<Rightarrow> rat option \<Rightarrow> string \<Rightarrow> string \<Rightarrow> string list \<Rightarrow>
     string list \<times> bytes list \<times> bool" where
  "try_endpoints session_get tm fps_limit drop_strat qual [] = ([], [], False)"
| "try_endpoints session_get tm fps_limit drop_strat qual (endpoint # rest) =
     (let (contacted, out, ok) = try_endpoints session_get tm fps_limit drop_strat qual rest
      in case session_get endpoint of
           Raised err \<Rightarrow> (endpoint # contacted, out, ok)
         | Got response \<Rightarrow>
             if status response \<noteq> 200 then (endpoint # contacted, out, ok)
             else if mjpeg_type (content_type_lower response) then
               (let sent = ef_chunk_loop fps_limit drop_strat qual (tm endpoint) 0 0
                             (chunks response)
                in if read_error response = None \<or> [] \<in> set (chunks response)
                   then ([endpoint], sent, True)
                   else (endpoint # contacted, sent @ out, ok))
             else (endpoint # contacted, out, ok))"

definition stream_with_fps_limit ::
  "(string \<Rightarrow> fetch) \<Rightarrow> (string \<Rightarrow> timing) \<Rightarrow>
     string \<Rightarrow> int \<Rightarrow> rat option \<Rightarrow> string \<Rightarrow> string \<Rightarrow> string \<Rightarrow>
     string list \<times> bytes list \<times> outcome" where
  "stream_with_fps_limit session_get tm ip port fps_limit drop_strat resolution qual =
     (let (contacted, out, ok) =
            try_endpoints session_get tm fps_limit drop_strat qual (stream_endpoints ip port)
      in (contacted, out, if ok then Returned else HTTPException 503 (error_msg ip port)))"


section \<open>EndpointProbe\<close>

subsection \<open>\<open>ef.py\<close>, \<open>scan_endpoints\<close>\<close>

datatype scan_entry =
    Available string int
  | Not_mjpeg string int
  | Scan_error string

definition scan_one :: "fetch \<Rightarrow> scan_entry" where
  "scan_one f =
     (case f of
        Raised err \<Rightarrow> Scan_error err
      | Got response \<Rightarrow>
          let ct = content_type_lower response
          in if sublist ''multipart/x-mixed-replace'' ct \<or> sublist ''image/jpeg'' ct
             then Available ct (status response)
             else Not_mjpeg ct (status response))"

definition scan_endpoints :: "(string \<Rightarrow> fetch) \<Rightarrow> string \<Rightarrow> int \<Rightarrow> (string \<times> scan_entry) list" where
  "scan_endpoints session_get ip port =
     map (\<lambda>endpoint. (endpoint, scan_one (session_get endpoint)))
       [''http://'' @ ip @ '':'' @ str_int port @ ''/video'',
        ''http://'' @ ip @ '':'' @ str_int port @ ''/mjpegfeed'',
        ''http://'' @ ip @ '':'' @ str_int port @ ''/'']"

subsection \<open>\<open>cv.py\<close>, \<open>scan_endpoints\<close>\<close>

text \<open>
  An entry of the JSON list: \<open>url\<close>, \<open>status\<close>, \<open>content_type\<close>, \<open>available\<close>, \<open>preview\<close>, or
  \<open>url\<close>, \<open>error\<close>, \<open>available\<close>. \<open>decode\<close> is \<open>bytes.decode(errors="ignore")\<close>.
\<close>

datatype cv_entry =
    Probed string int string bool string
  | Unreached string string bool

definition cv_scan_one ::
  "(string \<Rightarrow> fetch) \<Rightarrow> (string \<Rightarrow> fetch) \<Rightarrow> (bytes \<Rightarrow> string) \<Rightarrow> string \<Rightarrow> cv_entry" where
  "cv_scan_one requests_head requests_get decode endpoint =
     (case requests_head endpoint of
        Raised err \<Rightarrow> Unreached endpoint err False
      | Got head_resp \<Rightarrow>
          if status head_resp \<ge> 400 then
            (case requests_get endpoint of
               Raised err \<Rightarrow> Unreached endpoint err False
             | Got resp \<Rightarrow>
                 Probed endpoint (status resp)
                   (case content_type resp of None \<Rightarrow> [] | Some v \<Rightarrow> v)
                   (status resp = 200)
                   (case chunks resp of [] \<Rightarrow> [] | c # _ \<Rightarrow> decode (take 200 c)))
          else
            Probed endpoint (status head_resp)
              (case content_type head_resp of None \<Rightarrow> [] | Some v \<Rightarrow> v)
              (status head_resp = 200)
              [])"

definition cv_scan_endpoints ::
  "(string \<Rightarrow> fetch) \<Rightarrow> (string \<Rightarrow> fetch) \<Rightarrow> (bytes \<Rightarrow> string) \<Rightarrow> string \<Rightarrow> string \<Rightarrow>
     cv_entry list" where
  "cv_scan_endpoints requests_head requests_get decode ip port =
     map (cv_scan_one requests_head requests_get decode)
       [''http://'' @ ip @ '':'' @ port @ ''/video'',
        ''http://'' @ ip @ '':'' @ port @ ''/mjpegfeed'',
        ''http://'' @ ip @ '':'' @ port,
        ''http://'' @ ip @ '':'' @ port @ ''/jpg'',
        ''http://'' @ ip @ '':'' @ port @ ''/h264'']"


section \<open>Auxiliary definitions for stating and instantiating the properties\<close>

text \<open>
  A frame whose frame header (the \<open>SOF0\<close> segment) declares 40000 by 40000 pixels, followed
  by a scan header; it contains no marker \<open>SOI\<close> or \<open>EOI\<close> other than its first and last
  two bytes.
\<close>

definition oversized_frame :: bytes where
  "oversized_frame =
     SOI @
     [CHR 0xFF, CHR 0xC0, CHR 0x00, CHR 0x0B, CHR 0x08, CHR 0x9C, CHR 0x40, CHR 0x9C, CHR 0x40,
      CHR 0x01, CHR 0x01, CHR 0x11, CHR 0x00] @
     [CHR 0xFF, CHR 0xDA, CHR 0x00, CHR 0x08, CHR 0x01, CHR 0x01, CHR 0x00, CHR 0x00, CHR 0x3F,
      CHR 0x00] @
     EOI"

definition size_error :: string where
  "size_error = ''(-215:Assertion failed) pixels <= CV_IO_MAX_IMAGE_PIXELS''"

text \<open>
  A stand-in for OpenCV on which the definitions can be evaluated: an image is the frame
  itself; a frame that does not start with \<open>SOI\<close> does not decode; decoding raises on
  \<open>oversized_frame\<close>, which stands for a frame on which \<open>cv2.imdecode\<close> raises; a size is
  accepted when both sides are positive; encoding always succeeds.
\<close>

definition toy_codec :: "bytes codec" where
  "toy_codec =
     \<lparr>imdecode = (\<lambda>b. if \<not> prefix SOI b then Inr None
                       else if b = oversized_frame then Inl size_error
                       else Inr (Some b)),
      resize = (\<lambda>img sz. if 0 < fst sz \<and> 0 < snd sz then Inr img else Inl ''bad size''),
      imencode = (\<lambda>img q. Inr (Some (SOI @ str_int q @ EOI)))\<rparr>"

text \<open>Frames arriving every 50 ms, with no time lost between the two clock readings.\<close>

definition tm20 :: timing where
  "tm20 k = (1000 + of_nat k / 20, 0)"




text \<open>A session with every query parameter at its default.\<close>

definition cfg_default :: stream_cfg where
  "cfg_default =
     stream_cfg_of (\<lambda>s. None) ''192.168.1.5'' default_port default_fps_limit
       default_drop_strategy default_resolution default_quality"


text \<open>
  The test \<open>stream_with_fps_limit\<close> applies to a candidate before streaming from it, and the
  condition under which its \<open>return\<close> after the chunk loop is reached.
\<close>

definition accepted :: "fetch \<Rightarrow> bool" where
  "accepted f =
     (case f of
        Raised err \<Rightarrow> False
      | Got r \<Rightarrow> status r = 200 \<and> mjpeg_type (content_type_lower r))"

definition ends_normally :: "response \<Rightarrow> bool" where
  "ends_normally r = (read_error r = None \<or> [] \<in> set (chunks r))"

text \<open>Upstreams and responses on which the definitions can be evaluated.\<close>

definition refusing :: "string \<Rightarrow> fetch" where
  "refusing url = Raised ''Connection refused''"

definition html_page :: response where
  "html_page = \<lparr>status = 200, content_type = Some ''text/html'', chunks = [''<html>''],
                 read_error = None\<rparr>"

definition jpeg_404 :: response where
  "jpeg_404 = \<lparr>status = 404, content_type = Some ''image/jpeg'', chunks = [],
                read_error = None\<rparr>"

definition mjpeg_stream :: response where
  "mjpeg_stream = \<lparr>status = 200, content_type = Some ''multipart/x-mixed-replace; boundary=x'',
                    chunks = [''one'', ''two''], read_error = None\<rparr>"

definition broken_stream :: response where
  "broken_stream = \<lparr>status = 200, content_type = Some ''multipart/x-mixed-replace; boundary=x'',
                     chunks = [''zero''], read_error = Some ''Timeout''\<rparr>"

definition camera :: "string \<Rightarrow> fetch" where
  "camera url =
     (if url = ''http://10.0.0.2:4747/mjpegfeed'' then Got html_page
      else if url = ''http://10.0.0.2:4747/video'' then Got mjpeg_stream
      else Raised ''Connection refused'')"

definition flaky_camera :: "string \<Rightarrow> fetch" where
  "flaky_camera url =
     (if url = ''http://10.0.0.2:4747/mjpegfeed'' then Got broken_stream
      else if url = ''http://10.0.0.2:4747/video'' then Got mjpeg_stream
      else Raised ''Connection refused'')"

definition html_only :: "string \<Rightarrow> fetch" where
  "html_only url = Got html_page"

definition tm_all :: "string \<Rightarrow> timing" where
  "tm_all url = tm20"

definition not_found_page :: response where
  "not_found_page = \<lparr>status = 404, content_type = Some ''text/plain'',
                      chunks = [''Not Found''], read_error = None\<rparr>"

definition head_unsupported :: "string \<Rightarrow> fetch" where
  "head_unsupported url = Got not_found_page"

text \<open>A camera whose stream holds the oversized frame and then an ordinary one.\<close>

definition oversized_stream :: response where
  "oversized_stream =
     \<lparr>status = 200, content_type = Some ''multipart/x-mixed-replace; boundary=x'',
      chunks = [oversized_frame @ SOI @ ''ab'' @ EOI], read_error = None\<rparr>"

definition oversized_camera :: "string \<Rightarrow> fetch" where
  "oversized_camera url = Got oversized_stream"


section \<open>Properties of the FrameExtractor\<close>

subsection \<open>Searching\<close>

lemma find_first_append:
  "find_first sub xs = Some i \<Longrightarrow> find_first sub (xs @ ys) = Some i"
proof (induction xs arbitrary: i)
  case Nil
  then show ?case by (cases ys) (auto split: if_splits)
next
  case (Cons x xs)
  show ?case
  proof (cases "prefix sub (x # xs)")
    case True
    then have "prefix sub ((x # xs) @ ys)" by (rule prefix_prefix)
    with True Cons.prems show ?thesis by simp
  next
    case False
    with Cons.prems obtain j where j: "find_first sub xs = Some j" "i = Suc j"
      by auto
    from j(1) have "length sub \<le> length xs" using find_first_bound by fastforce
    with False have "\<not> prefix sub ((x # xs) @ ys)"
      by (metis append_Cons length_Cons le_SucI prefix_length_prefix prefixI)
    with j Cons.IH[OF j(1)] show ?thesis by simp
  qed
qed

lemma py_find_append:
  assumes "py_find buf sub start \<noteq> - 1" "0 \<le> start"
  shows "py_find (buf @ ext) sub start = py_find buf sub start"
proof -
  from assms have le: "start \<le> int (length buf)"
    by (auto simp: py_find_def Let_def split: if_splits)
  from assms le obtain i where i: "find_first sub (drop (nat start) buf) = Some i"
    by (auto simp: py_find_def Let_def split: option.splits if_splits)
  from le assms(2) have "drop (nat start) (buf @ ext) = drop (nat start) buf @ ext"
    by simp
  with find_first_append[OF i, of ext] i le assms(2) show ?thesis
    by (simp add: py_find_def Let_def)
qed

lemma extract_frames_None:
  "frame_at buffer = None \<Longrightarrow> extract_frames buffer = ([], buffer)"
  by (subst extract_frames.simps) (auto simp: frame_at_def Let_def split: if_splits)

lemma extract_frames_Some:
  "frame_at buffer = Some (s, e) \<Longrightarrow>
   extract_frames buffer =
     (slice buffer s e # fst (extract_frames (drop (nat e) buffer)),
      snd (extract_frames (drop (nat e) buffer)))"
  by (subst extract_frames.simps) (auto simp: frame_at_def Let_def split: if_splits)

lemma frame_at_range:
  assumes "frame_at buffer = Some (s, e)"
  shows "0 \<le> s \<and> s + 4 \<le> e \<and> e \<le> int (length buffer)"
proof -
  from assms have s: "s = py_find buffer SOI 0" "s \<noteq> - 1"
    and e: "e = py_find buffer EOI (s + 2) + 2" "py_find buffer EOI (s + 2) \<noteq> - 1"
    by (auto simp: frame_at_def Let_def split: if_splits)
  from s py_find_range[of buffer SOI 0] have s0: "0 \<le> s" by simp
  from e(2) py_find_range[of buffer EOI "s + 2"]
  have "py_find buffer EOI (s + 2) + 2 \<le> int (length buffer)" by (simp add: EOI_def)
  moreover from e(2) s0 have "s + 2 \<le> py_find buffer EOI (s + 2)"
    by (auto simp: py_find_def Let_def split: option.splits if_splits)
  ultimately show ?thesis using s0 e(1) by simp
qed

lemma frame_at_append:
  assumes "frame_at buffer = Some (s, e)"
  shows "frame_at (buffer @ ext) = Some (s, e)"
proof -
  from assms have s: "s = py_find buffer SOI 0" "py_find buffer SOI 0 \<noteq> - 1"
    and e: "e = py_find buffer EOI (s + 2) + 2" "py_find buffer EOI (s + 2) \<noteq> - 1"
    by (auto simp: frame_at_def Let_def split: if_splits)
  from frame_at_range[OF assms] have s0: "0 \<le> s" by simp
  have 1: "py_find (buffer @ ext) SOI 0 = s"
    using py_find_append[OF s(2), of ext] s(1) by simp
  have 2: "py_find (buffer @ ext) EOI (s + 2) = py_find buffer EOI (s + 2)"
    using py_find_append[OF e(2), of ext] s0 by simp
  show ?thesis
    using 1 2 s e by (simp add: frame_at_def Let_def)
qed

lemma extract_frames_append:
  "extract_frames (buffer @ ext) =
     (fst (extract_frames buffer) @ fst (extract_frames (snd (extract_frames buffer) @ ext)),
      snd (extract_frames (snd (extract_frames buffer) @ ext)))"
proof (induction buffer rule: length_induct)
  case (1 buffer)
  show ?case
  proof (cases "frame_at buffer")
    case None
    then show ?thesis by (simp add: extract_frames_None)
  next
    case (Some p)
    obtain s e where p: "p = (s, e)" by (cases p)
    from Some p have fa: "frame_at buffer = Some (s, e)" by simp
    note r = frame_at_range[OF fa]
    from r have shorter: "length (drop (nat e) buffer) < length buffer" by auto
    from r have d: "drop (nat e) (buffer @ ext) = drop (nat e) buffer @ ext" by auto
    from r have sl: "slice (buffer @ ext) s e = slice buffer s e"
      by (auto simp: slice_def)
    from 1 shorter have IH:
      "extract_frames (drop (nat e) buffer @ ext) =
         (fst (extract_frames (drop (nat e) buffer)) @
            fst (extract_frames (snd (extract_frames (drop (nat e) buffer)) @ ext)),
          snd (extract_frames (snd (extract_frames (drop (nat e) buffer)) @ ext)))"
      by blast
    have "extract_frames (buffer @ ext) =
            (slice buffer s e # fst (extract_frames (drop (nat e) buffer @ ext)),
             snd (extract_frames (drop (nat e) buffer @ ext)))"
      using extract_frames_Some[OF frame_at_append[OF fa, of ext]] by (simp only: d sl)
    then show ?thesis
      by (simp only: IH extract_frames_Some[OF fa] fst_conv snd_conv append_Cons)
  qed
qed

lemma extract_frames_drained:
  "extract_frames (snd (extract_frames buffer)) = ([], snd (extract_frames buffer))"
proof (induction buffer rule: length_induct)
  case (1 buffer)
  show ?case
  proof (cases "frame_at buffer")
    case None
    then show ?thesis by (simp add: extract_frames_None)
  next
    case (Some p)
    obtain s e where p: "p = (s, e)" by (cases p)
    from Some p have fa: "frame_at buffer = Some (s, e)" by simp
    from frame_at_range[OF fa] have "length (drop (nat e) buffer) < length buffer" by auto
    with 1 show ?thesis by (simp add: extract_frames_Some[OF fa])
  qed
qed

lemma pump_concat:
  "[] \<notin> set chs \<Longrightarrow> extract_frames buffer = ([], buffer) \<Longrightarrow>
   pump buffer chs = extract_frames (buffer @ concat chs)"
proof (induction chs arbitrary: buffer)
  case Nil
  then show ?case by simp
next
  case (Cons c cs)
  let ?b = "snd (extract_frames (buffer @ c))"
  from Cons.prems have ne: "c \<noteq> []" and cs: "[] \<notin> set cs" by auto
  have "pump ?b cs = extract_frames (?b @ concat cs)"
    by (rule Cons.IH[OF cs extract_frames_drained])
  then show ?case
    using ne extract_frames_append[of "buffer @ c" "concat cs"]
    by (simp add: feed_def)
qed

lemma extract_frames_Nil: "extract_frames [] = ([], [])"
  by (subst extract_frames.simps) (simp add: py_find_def SOI_def EOI_def)


lemma find_first_marker:
  assumes "a \<noteq> b" "\<not> sublist [a, b] g"
  shows "find_first [a, b] (g @ [a, b] @ rest) = Some (length g)"
  using assms(2)
proof (induction g)
  case Nil
  then show ?case by simp
next
  case (Cons x g)
  have np: "\<not> prefix [a, b] (x # g @ a # b # rest)"
  proof
    assume p: "prefix [a, b] (x # g @ a # b # rest)"
    show False
    proof (cases g)
      case Nil
      with p assms(1) show False by simp
    next
      case (Cons y g')
      with p have "x # g = [a, b] @ g'" by simp
      then have "sublist [a, b] (x # g)" by (metis sublist_appendI append_Nil)
      with Cons.prems show False by simp
    qed
  qed
  from Cons.prems have "\<not> sublist [a, b] g"
    by (metis sublist_Cons_right)
  with Cons.IH np show ?case by simp
qed

lemma py_find_marker:
  assumes "a \<noteq> b" "\<not> sublist [a, b] g"
  shows "py_find (pre @ g @ [a, b] @ rest) [a, b] (int (length pre)) = int (length pre + length g)"
  using find_first_marker[OF assms, of rest]
  by (simp add: py_find_def Let_def)

lemma frame_at_head:
  assumes "\<not> sublist SOI g" "\<not> sublist EOI A"
  shows "frame_at (g @ SOI @ A @ EOI @ rest) =
           Some (int (length g), int (length g + length A + 4))"
proof -
  let ?buf = "g @ SOI @ A @ EOI @ rest"
  have s: "py_find ?buf SOI 0 = int (length g)"
    using py_find_marker[of "CHR 0xFF" "CHR 0xD8" g "[]" "A @ EOI @ rest"] assms(1)
    by (simp add: SOI_def)
  have "py_find ((g @ SOI) @ A @ EOI @ rest) EOI (int (length (g @ SOI))) =
          int (length (g @ SOI) + length A)"
    using py_find_marker[of "CHR 0xFF" "CHR 0xD9" A "g @ SOI" rest] assms(2)
    by (simp add: EOI_def)
  then have e: "py_find ?buf EOI (int (length g) + 2) = int (length g + length A + 2)"
    by (simp add: SOI_def add.commute)
  show ?thesis
    by (simp add: frame_at_def Let_def s e)
qed

lemma extract_frames_head:
  assumes "\<not> sublist SOI g" "\<not> sublist EOI A"
  shows "extract_frames (g @ SOI @ A @ EOI @ rest) =
           ((SOI @ A @ EOI) # fst (extract_frames rest), snd (extract_frames rest))"
proof -
  have n: "nat (int (length g + length A + 4)) - nat (int (length g)) = length (SOI @ A @ EOI)"
    by (simp add: SOI_def EOI_def)
  have "slice (g @ (SOI @ A @ EOI) @ rest) (int (length g)) (int (length g + length A + 4))
          = SOI @ A @ EOI"
    unfolding slice_def n by simp
  then have sl:
    "slice (g @ SOI @ A @ EOI @ rest) (int (length g)) (int (length g + length A + 4))
       = SOI @ A @ EOI"
    by simp
  have m: "nat (int (length g + length A + 4)) = length (g @ SOI @ A @ EOI)"
    by (simp add: SOI_def EOI_def)
  have "drop (nat (int (length g + length A + 4))) ((g @ SOI @ A @ EOI) @ rest) = rest"
    unfolding m by simp
  then have dr: "drop (nat (int (length g + length A + 4))) (g @ SOI @ A @ EOI @ rest) = rest"
    by simp
  show ?thesis
    using extract_frames_Some[OF frame_at_head[OF assms, of rest]]
    by (simp only: sl dr)
qed


subsection \<open>Two frames behind leading garbage\<close>

text \<open>
  Claim C2. Feeding the extraction loop of \<open>generate\<close> a buffer
  \<open>garbage @ SOI @ A @ EOI @ SOI @ B @ EOI\<close>, where neither marker occurs in the garbage
  or in the payloads \<open>A\<close> and \<open>B\<close>, yields exactly the two frames \<open>SOI @ A @ EOI\<close> and
  \<open>SOI @ B @ EOI\<close>, in this order, and leaves the buffer empty: the garbage is gone.
\<close>

theorem C2_two_frames:
  assumes "\<not> sublist SOI garbage" "\<not> sublist EOI garbage"
    and "\<not> sublist SOI A" "\<not> sublist EOI A"
    and "\<not> sublist SOI B" "\<not> sublist EOI B"
  shows "feed [] (garbage @ SOI @ A @ EOI @ SOI @ B @ EOI) =
           ([SOI @ A @ EOI, SOI @ B @ EOI], [])"
proof -
  have second: "extract_frames (SOI @ B @ EOI) = ([SOI @ B @ EOI], [])"
    using extract_frames_head[of "[]" B "[]"] assms(6)
    by (simp add: extract_frames_Nil SOI_def)
  show ?thesis
    using extract_frames_head[OF assms(1) assms(4), of "SOI @ B @ EOI"]
    by (simp add: feed_def second)
qed

theorem C2_two_frames_witness:
  "\<not> sublist SOI ''xx'' \<and> \<not> sublist EOI ''xx'' \<and>
   \<not> sublist SOI ''abc'' \<and> \<not> sublist EOI ''abc'' \<and>
   \<not> sublist SOI ''d'' \<and> \<not> sublist EOI ''d'' \<and>
   feed [] (''xx'' @ SOI @ ''abc'' @ EOI @ SOI @ ''d'' @ EOI) =
     ([SOI @ ''abc'' @ EOI, SOI @ ''d'' @ EOI], [])"
proof -
  have h: "\<not> sublist SOI ''xx''" "\<not> sublist EOI ''xx''"
    "\<not> sublist SOI ''abc''" "\<not> sublist EOI ''abc''"
    "\<not> sublist SOI ''d''" "\<not> sublist EOI ''d''"
    by (simp_all add: SOI_def EOI_def sublist_code)
  show ?thesis
    using h C2_two_frames[OF h] by simp
qed

lemma extract_jpeg_frame_None:
  "frame_at (fb @ data) = None \<Longrightarrow> extract_jpeg_frame fb data = (None, fb @ data)"
  by (auto simp: extract_jpeg_frame_def frame_at_def Let_def split: if_splits)

lemma extract_jpeg_frame_Some:
  "frame_at (fb @ data) = Some (s, e) \<Longrightarrow>
   extract_jpeg_frame fb data = (Some (slice (fb @ data) s e), drop (nat e) (fb @ data))"
  by (auto simp: extract_jpeg_frame_def frame_at_def Let_def split: if_splits)

lemma feed_jpeg_frames:
  "fst (extract_frames (fb @ concat chs)) =
     fst (feed_jpeg fb chs) @ fst (extract_frames (snd (feed_jpeg fb chs)))"
proof (induction chs arbitrary: fb)
  case Nil
  then show ?case by simp
next
  case (Cons c cs)
  show ?case
  proof (cases "frame_at (fb @ c)")
    case None
    with Cons.IH[of "fb @ c"] show ?thesis
      by (simp add: extract_jpeg_frame_None)
  next
    case (Some p)
    obtain s e where p: "p = (s, e)" by (cases p)
    from Some p have fa: "frame_at (fb @ c) = Some (s, e)" by simp
    note r = frame_at_range[OF fa]
    from r have d: "drop (nat e) ((fb @ c) @ concat cs) = drop (nat e) (fb @ c) @ concat cs"
      by auto
    from r have sl: "slice ((fb @ c) @ concat cs) s e = slice (fb @ c) s e"
      by (auto simp: slice_def)
    have "extract_frames ((fb @ c) @ concat cs) =
            (slice (fb @ c) s e # fst (extract_frames (drop (nat e) (fb @ c) @ concat cs)),
             snd (extract_frames (drop (nat e) (fb @ c) @ concat cs)))"
      using extract_frames_Some[OF frame_at_append[OF fa, of "concat cs"]]
      by (simp only: d sl)
    with Cons.IH[of "drop (nat e) (fb @ c)"] show ?thesis
      by (simp add: extract_jpeg_frame_Some[OF fa])
  qed
qed

lemma pump_single: "pump [] [whole] = extract_frames whole"
  by (cases "whole = []") (simp_all add: feed_def extract_frames_Nil)

lemma feed_jpeg_prefix:
  "prefix (fst (feed_jpeg [] chs)) (fst (pump [] [concat chs]))"
proof -
  have "fst (pump [] [concat chs]) =
          fst (feed_jpeg [] chs) @ fst (extract_frames (snd (feed_jpeg [] chs)))"
    using feed_jpeg_frames[of "[]" chs] by (simp only: pump_single append_Nil)
  then show ?thesis by (simp only: prefixI)
qed


subsection \<open>Chunk boundaries\<close>

text \<open>
  Claim C1, as amended. For every sequence of non-empty chunks (the pump loop breaks on
  an empty chunk), the extraction loop of \<open>generate\<close> fed chunk by chunk yields the same
  frames in the same order, and leaves the same buffer, as fed the concatenation in one
  chunk. \<open>extract_jpeg_frame\<close> of \<open>webrtc_viewer.py\<close> returns at most one frame per
  call: the frames it returns chunk by chunk, followed by those still extractable from
  its buffer, are that same sequence.
\<close>

theorem C1_chunk_independence:
  assumes "[] \<notin> set chs"
  shows "pump [] chs = pump [] [concat chs] \<and>
         fst (pump [] [concat chs]) =
           fst (feed_jpeg [] chs) @ fst (extract_frames (snd (feed_jpeg [] chs)))"
proof -
  have "pump [] chs = extract_frames (concat chs)"
    using pump_concat[OF assms extract_frames_Nil] by simp
  moreover have "fst (extract_frames (concat chs)) =
      fst (feed_jpeg [] chs) @ fst (extract_frames (snd (feed_jpeg [] chs)))"
    using feed_jpeg_frames[of "[]" chs] by simp
  ultimately show ?thesis by (simp only: pump_single simp_thms)
qed

theorem C1_chunk_independence_witness:
  "[] \<notin> set [''x'' @ SOI @ ''a'', ''b'' @ EOI @ SOI, ''c'' @ EOI @ ''z''] \<and>
   pump [] [''x'' @ SOI @ ''a'', ''b'' @ EOI @ SOI, ''c'' @ EOI @ ''z''] =
     pump [] [concat [''x'' @ SOI @ ''a'', ''b'' @ EOI @ SOI, ''c'' @ EOI @ ''z'']] \<and>
   pump [] [''x'' @ SOI @ ''a'', ''b'' @ EOI @ SOI, ''c'' @ EOI @ ''z''] =
     ([SOI @ ''ab'' @ EOI, SOI @ ''c'' @ EOI], ''z'')"
proof -
  have h: "[] \<notin> set [''x'' @ SOI @ ''a'', ''b'' @ EOI @ SOI, ''c'' @ EOI @ ''z'']"
    by (simp add: SOI_def)
  have v: "pump [] [concat [''x'' @ SOI @ ''a'', ''b'' @ EOI @ SOI, ''c'' @ EOI @ ''z'']] =
             ([SOI @ ''ab'' @ EOI, SOI @ ''c'' @ EOI], ''z'')"
    by (simp add: feed_def extract_frames.simps py_find_def slice_def SOI_def EOI_def)
  from C1_chunk_independence[OF h] have
    "pump [] [''x'' @ SOI @ ''a'', ''b'' @ EOI @ SOI, ''c'' @ EOI @ ''z''] =
     pump [] [concat [''x'' @ SOI @ ''a'', ''b'' @ EOI @ SOI, ''c'' @ EOI @ ''z'']]"
    by (rule conjunct1)
  with h v show ?thesis by (simp only: simp_thms)
qed

text \<open>
  Claim C1 as stated fails for \<open>extract_jpeg_frame\<close>: two frames fed as two chunks give
  two frames, fed as one chunk they give only the first.
\<close>

theorem C1_counterexample:
  "fst (feed_jpeg [] [SOI @ ''a'' @ EOI, SOI @ ''b'' @ EOI]) =
     [SOI @ ''a'' @ EOI, SOI @ ''b'' @ EOI] \<and>
   fst (feed_jpeg [] [concat [SOI @ ''a'' @ EOI, SOI @ ''b'' @ EOI]]) = [SOI @ ''a'' @ EOI] \<and>
   fst (feed_jpeg [] [SOI @ ''a'' @ EOI, SOI @ ''b'' @ EOI]) \<noteq>
     fst (feed_jpeg [] [concat [SOI @ ''a'' @ EOI, SOI @ ''b'' @ EOI]])"
  by (simp add: extract_jpeg_frame_def py_find_def slice_def SOI_def EOI_def)

subsection \<open>What stays in the buffer\<close>

lemma find_first_sublist: "find_first sub xs = Some i \<Longrightarrow> sublist sub xs"
proof (induction xs arbitrary: i)
  case Nil
  then show ?case by (simp split: if_splits)
next
  case (Cons x xs)
  show ?case
  proof (cases "prefix sub (x # xs)")
    case True
    then show ?thesis by (rule prefix_imp_sublist)
  next
    case False
    with Cons.prems obtain j where "find_first sub xs = Some j" by auto
    then have "sublist sub xs" by (rule Cons.IH)
    then show ?thesis by (rule sublist_Cons_right[THEN iffD2, OF disjI2])
  qed
qed

lemma py_find_sublist: "py_find buf sub start \<noteq> - 1 \<Longrightarrow> sublist sub buf"
proof -
  assume "py_find buf sub start \<noteq> - 1"
  then obtain n i where "find_first sub (drop n buf) = Some i"
    by (auto simp: py_find_def Let_def split: option.splits if_splits)
  then have "sublist sub (drop n buf)" by (rule find_first_sublist)
  then show ?thesis
    by (metis append_take_drop_id sublist_append_leftI sublist_order.order_trans sublist_order.order_refl)
qed

lemma frame_at_no_EOI: "\<not> sublist EOI buffer \<Longrightarrow> frame_at buffer = None"
  using py_find_sublist[of buffer EOI]
  by (auto simp: frame_at_def Let_def)

lemma frame_at_no_SOI: "\<not> sublist SOI buffer \<Longrightarrow> frame_at buffer = None"
  using py_find_sublist[of buffer SOI]
  by (auto simp: frame_at_def Let_def)

lemma frame_at_None_prefix: "frame_at (buffer @ ext) = None \<Longrightarrow> frame_at buffer = None"
  using frame_at_append[of buffer _ _ ext] by (cases "frame_at buffer") auto

lemma pump_no_frame:
  assumes "[] \<notin> set chs" "frame_at (concat chs) = None"
  shows "pump [] chs = ([], concat chs)"
  using pump_concat[OF assms(1) extract_frames_Nil] extract_frames_None[OF assms(2)]
  by simp

lemma feed_jpeg_no_frame:
  "frame_at (fb @ concat chs) = None \<Longrightarrow> feed_jpeg fb chs = ([], fb @ concat chs)"
proof (induction chs arbitrary: fb)
  case Nil
  then show ?case by simp
next
  case (Cons c cs)
  from Cons.prems have all: "frame_at ((fb @ c) @ concat cs) = None" by simp
  then have "frame_at (fb @ c) = None" by (rule frame_at_None_prefix)
  then have "extract_jpeg_frame fb c = (None, fb @ c)" by (rule extract_jpeg_frame_None)
  with Cons.IH[OF all] show ?case by simp
qed

lemma extract_frames_suffix: "suffix (snd (extract_frames buffer)) buffer"
proof (induction buffer rule: length_induct)
  case (1 buffer)
  show ?case
  proof (cases "frame_at buffer")
    case None
    then show ?thesis by (simp add: extract_frames_None)
  next
    case (Some p)
    obtain s e where p: "p = (s, e)" by (cases p)
    from Some p have fa: "frame_at buffer = Some (s, e)" by simp
    from frame_at_range[OF fa] have "length (drop (nat e) buffer) < length buffer" by auto
    with 1 have "suffix (snd (extract_frames (drop (nat e) buffer))) (drop (nat e) buffer)"
      by blast
    then have "suffix (snd (extract_frames (drop (nat e) buffer))) buffer"
      using suffix_drop suffix_order.order_trans by blast
    then show ?thesis by (simp add: extract_frames_Some[OF fa])
  qed
qed

lemma no_frame_in_xs: "frame_at (concat (replicate n ''x'')) = None"
proof (rule frame_at_no_EOI)
  show "\<not> sublist EOI (concat (replicate n ''x''))"
  proof
    assume "sublist EOI (concat (replicate n ''x''))"
    then have "set EOI \<subseteq> set (concat (replicate n ''x''))" by (rule set_mono_sublist)
    then show False by (auto simp: EOI_def)
  qed
qed

lemma length_xs: "length (concat (replicate n ''x'')) = n"
  by (induction n) simp_all

text \<open>
  Claim C10. Let \<open>frame_at\<close> be the loop's test for a complete frame in the buffer after
  the chunk was appended. If there is none (no \<open>SOI\<close>, or no \<open>EOI\<close> from two bytes after
  the first \<open>SOI\<close>), both extractors return no frame and keep every byte, garbage and
  partial frame included. If there is one, ending at index \<open>e\<close> just after its \<open>EOI\<close>,
  exactly the first \<open>e\<close> bytes are deleted before the search goes on, so the buffer left
  is always a suffix of what was there. Nothing caps the buffer: while the upstream has
  completed no frame the buffer is all it has sent, and for every bound there is an
  upstream that drives the buffer beyond it.
\<close>

theorem C10_buffer_retention:
  "(frame_at (buffer @ chunk) = None \<longrightarrow>
      feed buffer chunk = ([], buffer @ chunk) \<and>
      extract_jpeg_frame buffer chunk = (None, buffer @ chunk)) \<and>
   (\<forall>s e. frame_at (buffer @ chunk) = Some (s, e) \<longrightarrow>
      e = py_find (buffer @ chunk) EOI (py_find (buffer @ chunk) SOI 0 + 2) + 2 \<and>
      feed buffer chunk =
        (slice (buffer @ chunk) s e # fst (extract_frames (drop (nat e) (buffer @ chunk))),
         snd (extract_frames (drop (nat e) (buffer @ chunk)))) \<and>
      extract_jpeg_frame buffer chunk =
        (Some (slice (buffer @ chunk) s e), drop (nat e) (buffer @ chunk))) \<and>
   suffix (snd (feed buffer chunk)) (buffer @ chunk) \<and>
   ([] \<notin> set chs \<and> frame_at (concat chs) = None \<longrightarrow> pump [] chs = ([], concat chs)) \<and>
   (frame_at (concat chs) = None \<longrightarrow> feed_jpeg [] chs = ([], concat chs)) \<and>
   (\<forall>N. \<exists>upstream. [] \<notin> set upstream \<and>
          N < length (snd (pump [] upstream)) \<and> N < length (snd (feed_jpeg [] upstream)))"
proof (intro conjI allI impI)
  assume "frame_at (buffer @ chunk) = None"
  then show "feed buffer chunk = ([], buffer @ chunk)"
    by (simp add: feed_def extract_frames_None)
next
  assume "frame_at (buffer @ chunk) = None"
  then show "extract_jpeg_frame buffer chunk = (None, buffer @ chunk)"
    by (rule extract_jpeg_frame_None)
next
  fix s e
  assume "frame_at (buffer @ chunk) = Some (s, e)"
  then show "e = py_find (buffer @ chunk) EOI (py_find (buffer @ chunk) SOI 0 + 2) + 2"
    by (auto simp: frame_at_def Let_def split: if_splits)
next
  fix s e
  assume "frame_at (buffer @ chunk) = Some (s, e)"
  then show "feed buffer chunk =
        (slice (buffer @ chunk) s e # fst (extract_frames (drop (nat e) (buffer @ chunk))),
         snd (extract_frames (drop (nat e) (buffer @ chunk))))"
    unfolding feed_def by (rule extract_frames_Some)
next
  fix s e
  assume "frame_at (buffer @ chunk) = Some (s, e)"
  then show "extract_jpeg_frame buffer chunk =
        (Some (slice (buffer @ chunk) s e), drop (nat e) (buffer @ chunk))"
    by (rule extract_jpeg_frame_Some)
next
  show "suffix (snd (feed buffer chunk)) (buffer @ chunk)"
    unfolding feed_def by (rule extract_frames_suffix)
next
  assume "[] \<notin> set chs \<and> frame_at (concat chs) = None"
  then show "pump [] chs = ([], concat chs)"
    using pump_no_frame by blast
next
  assume "frame_at (concat chs) = None"
  then show "feed_jpeg [] chs = ([], concat chs)"
    using feed_jpeg_no_frame[of "[]" chs] by simp
next
  fix N
  let ?up = "replicate (Suc N) ''x''"
  have ne: "[] \<notin> set ?up" by simp
  have "pump [] ?up = ([], concat ?up)"
    by (rule pump_no_frame[OF ne no_frame_in_xs])
  moreover have "feed_jpeg [] ?up = ([], concat ?up)"
    using feed_jpeg_no_frame[of "[]" ?up] no_frame_in_xs[of "Suc N"] by simp
  ultimately have "N < length (snd (pump [] ?up)) \<and> N < length (snd (feed_jpeg [] ?up))"
    by (simp only: snd_conv length_xs lessI simp_thms)
  with ne show "\<exists>upstream. [] \<notin> set upstream \<and>
          N < length (snd (pump [] upstream)) \<and> N < length (snd (feed_jpeg [] upstream))"
    by blast
qed

theorem C10_buffer_retention_witness:
  "frame_at ((''g'' @ SOI @ ''a'') @ ''b'') = None \<and>
   feed (''g'' @ SOI @ ''a'') ''b'' = ([], ''g'' @ SOI @ ''ab'') \<and>
   extract_jpeg_frame (''g'' @ SOI @ ''a'') ''b'' = (None, ''g'' @ SOI @ ''ab'') \<and>
   frame_at ((''g'' @ SOI @ ''a'') @ (EOI @ ''r'')) = Some (1, 6) \<and>
   feed (''g'' @ SOI @ ''a'') (EOI @ ''r'') = ([SOI @ ''a'' @ EOI], ''r'') \<and>
   extract_jpeg_frame (''g'' @ SOI @ ''a'') (EOI @ ''r'') = (Some (SOI @ ''a'' @ EOI), ''r'') \<and>
   [] \<notin> set [''g'' @ SOI, ''a'', ''b''] \<and>
   frame_at (concat [''g'' @ SOI, ''a'', ''b'']) = None \<and>
   pump [] [''g'' @ SOI, ''a'', ''b''] = ([], ''g'' @ SOI @ ''ab'') \<and>
   feed_jpeg [] [''g'' @ SOI, ''a'', ''b''] = ([], ''g'' @ SOI @ ''ab'')"
proof -
  have n1: "frame_at ((''g'' @ SOI @ ''a'') @ ''b'') = None"
    by (simp add: frame_at_def py_find_def SOI_def EOI_def)
  have s1: "frame_at ((''g'' @ SOI @ ''a'') @ (EOI @ ''r'')) = Some (1, 6)"
    by (simp add: frame_at_def py_find_def SOI_def EOI_def)
  have n2: "[] \<notin> set [''g'' @ SOI, ''a'', ''b'']"
    "frame_at (concat [''g'' @ SOI, ''a'', ''b'']) = None"
    by (simp_all add: frame_at_def py_find_def SOI_def EOI_def)
  have r: "extract_frames ''r'' = ([], ''r'')"
    by (simp add: extract_frames_None frame_at_def py_find_def SOI_def EOI_def)
  note t1 = C10_buffer_retention[of "''g'' @ SOI @ ''a''" "''b''" "[''g'' @ SOI, ''a'', ''b'']"]
  note t2 = C10_buffer_retention[of "''g'' @ SOI @ ''a''" "EOI @ ''r''" "[]"]
  from t1 n1 have a: "feed (''g'' @ SOI @ ''a'') ''b'' = ([], (''g'' @ SOI @ ''a'') @ ''b'')"
    "extract_jpeg_frame (''g'' @ SOI @ ''a'') ''b'' = (None, (''g'' @ SOI @ ''a'') @ ''b'')"
    by blast+
  from t1 n2 have b: "pump [] [''g'' @ SOI, ''a'', ''b''] = ([], concat [''g'' @ SOI, ''a'', ''b''])"
    "feed_jpeg [] [''g'' @ SOI, ''a'', ''b''] = ([], concat [''g'' @ SOI, ''a'', ''b''])"
    by blast+
  from t2 s1 have c:
    "feed (''g'' @ SOI @ ''a'') (EOI @ ''r'') =
        (slice ((''g'' @ SOI @ ''a'') @ (EOI @ ''r'')) 1 6 #
           fst (extract_frames (drop (nat 6) ((''g'' @ SOI @ ''a'') @ (EOI @ ''r'')))),
         snd (extract_frames (drop (nat 6) ((''g'' @ SOI @ ''a'') @ (EOI @ ''r'')))))"
    "extract_jpeg_frame (''g'' @ SOI @ ''a'') (EOI @ ''r'') =
        (Some (slice ((''g'' @ SOI @ ''a'') @ (EOI @ ''r'')) 1 6),
         drop (nat 6) ((''g'' @ SOI @ ''a'') @ (EOI @ ''r'')))"
    by blast+
  have d: "drop (nat 6) ((''g'' @ SOI @ ''a'') @ (EOI @ ''r'')) = ''r''"
    "slice ((''g'' @ SOI @ ''a'') @ (EOI @ ''r'')) 1 6 = SOI @ ''a'' @ EOI"
    by (simp_all add: slice_def SOI_def EOI_def)
  have e1: "(''g'' @ SOI @ ''a'') @ ''b'' = ''g'' @ SOI @ ''ab''"
    "concat [''g'' @ SOI, ''a'', ''b''] = ''g'' @ SOI @ ''ab''"
    by simp_all
  from a have a': "feed (''g'' @ SOI @ ''a'') ''b'' = ([], ''g'' @ SOI @ ''ab'')"
    "extract_jpeg_frame (''g'' @ SOI @ ''a'') ''b'' = (None, ''g'' @ SOI @ ''ab'')"
    by (simp_all only: e1)
  from b have b': "pump [] [''g'' @ SOI, ''a'', ''b''] = ([], ''g'' @ SOI @ ''ab'')"
    "feed_jpeg [] [''g'' @ SOI, ''a'', ''b''] = ([], ''g'' @ SOI @ ''ab'')"
    by (simp_all only: e1)
  from c have c': "feed (''g'' @ SOI @ ''a'') (EOI @ ''r'') = ([SOI @ ''a'' @ EOI], ''r'')"
    "extract_jpeg_frame (''g'' @ SOI @ ''a'') (EOI @ ''r'') = (Some (SOI @ ''a'' @ EOI), ''r'')"
    by (simp_all only: d r fst_conv snd_conv)
  from n1 s1 n2 a' b' c' show ?thesis by blast
qed


section \<open>Properties of the RateGovernor\<close>

lemma fv_oldest_latest:
  "fv_decide fps ''oldest'' lst t = fv_decide fps ''latest'' lst t"
  by (simp add: fv_decide_def Let_def)

lemma ef_oldest_latest:
  "ef_decide fps ''oldest'' q lst t = ef_decide fps ''latest'' q lst t"
  by (simp add: ef_decide_def Let_def)

lemma fv_chunk_loop_oldest_latest:
  "fv_chunk_loop fps ''oldest'' tm k lst chs = fv_chunk_loop fps ''latest'' tm k lst chs"
  by (induction chs arbitrary: k lst) (simp_all add: fv_oldest_latest Let_def)

lemma ef_chunk_loop_oldest_latest:
  "ef_chunk_loop fps ''oldest'' q tm k lst chs = ef_chunk_loop fps ''latest'' q tm k lst chs"
  by (induction chs arbitrary: k lst) (simp_all add: ef_oldest_latest Let_def)

text \<open>
  Claim C4, as amended. In \<open>stream_with_fps_limit\<close> (\<open>fastapi_viewer.py\<close> and \<open>ef.py\<close>) the
  strategy \<open>oldest\<close> decides as \<open>latest\<close> does at every arrival time and in every state,
  and the chunks yielded are the same; before the interval has elapsed both drop the
  chunk and leave \<open>last_frame_time\<close> as it is. In \<open>generate\<close> of \<open>ef.py\<close> the strategy
  \<open>oldest\<close> decides as the default does: before the interval has elapsed it delays by the
  remainder and then emits, and only \<open>latest\<close> drops.
\<close>

theorem C4_oldest_policy:
  "fv_decide fps ''oldest'' lst t = fv_decide fps ''latest'' lst t \<and>
   ef_decide fps ''oldest'' q lst t = ef_decide fps ''latest'' q lst t \<and>
   fv_chunk_loop fps ''oldest'' tm k lst chs = fv_chunk_loop fps ''latest'' tm k lst chs \<and>
   ef_chunk_loop fps ''oldest'' q tm k lst chs = ef_chunk_loop fps ''latest'' q tm k lst chs \<and>
   (truthy fps \<and> t - lst < frame_interval_of fps \<longrightarrow>
      fv_decide fps ''oldest'' lst t = Drop \<and> ef_decide fps ''oldest'' q lst t = Drop) \<and>
   (truthy fps \<and> fst (tm k) - lst < frame_interval_of fps \<and> c \<noteq> [] \<longrightarrow>
      fv_chunk_loop fps ''oldest'' tm k lst (c # chs) =
        fv_chunk_loop fps ''oldest'' tm (Suc k) lst chs \<and>
      ef_chunk_loop fps ''oldest'' q tm k lst (c # chs) =
        ef_chunk_loop fps ''oldest'' q tm (Suc k) lst chs) \<and>
   generate_decide i ''oldest'' lst t = generate_decide i ''none'' lst t \<and>
   (0 < i \<and> t - lst < i \<longrightarrow>
      generate_decide i ''oldest'' lst t = Delay (i - (t - lst)) \<and>
      generate_decide i ''latest'' lst t = Drop)"
proof (intro conjI impI)
  show "fv_decide fps ''oldest'' lst t = fv_decide fps ''latest'' lst t"
    by (rule fv_oldest_latest)
  show "ef_decide fps ''oldest'' q lst t = ef_decide fps ''latest'' q lst t"
    by (rule ef_oldest_latest)
  show "fv_chunk_loop fps ''oldest'' tm k lst chs = fv_chunk_loop fps ''latest'' tm k lst chs"
    by (rule fv_chunk_loop_oldest_latest)
  show "ef_chunk_loop fps ''oldest'' q tm k lst chs = ef_chunk_loop fps ''latest'' q tm k lst chs"
    by (rule ef_chunk_loop_oldest_latest)
  show "generate_decide i ''oldest'' lst t = generate_decide i ''none'' lst t"
    by (simp add: generate_decide_def Let_def)
next
  assume "truthy fps \<and> t - lst < frame_interval_of fps"
  then show "fv_decide fps ''oldest'' lst t = Drop"
    by (simp add: fv_decide_def Let_def)
next
  assume "truthy fps \<and> t - lst < frame_interval_of fps"
  then show "ef_decide fps ''oldest'' q lst t = Drop"
    by (simp add: ef_decide_def Let_def)
next
  assume "truthy fps \<and> fst (tm k) - lst < frame_interval_of fps \<and> c \<noteq> []"
  then show "fv_chunk_loop fps ''oldest'' tm k lst (c # chs) =
        fv_chunk_loop fps ''oldest'' tm (Suc k) lst chs"
    by (simp add: fv_decide_def Let_def)
next
  assume "truthy fps \<and> fst (tm k) - lst < frame_interval_of fps \<and> c \<noteq> []"
  then show "ef_chunk_loop fps ''oldest'' q tm k lst (c # chs) =
        ef_chunk_loop fps ''oldest'' q tm (Suc k) lst chs"
    by (simp add: ef_decide_def Let_def)
next
  assume "0 < i \<and> t - lst < i"
  then show "generate_decide i ''oldest'' lst t = Delay (i - (t - lst))"
    by (simp add: generate_decide_def Let_def)
next
  assume "0 < i \<and> t - lst < i"
  then show "generate_decide i ''latest'' lst t = Drop"
    by (simp add: generate_decide_def Let_def)
qed

theorem C4_oldest_policy_witness:
  "truthy (Some 10) \<and> (1000 + 1 / 20 :: rat) - 1000 < frame_interval_of (Some 10) \<and>
   fv_decide (Some 10) ''oldest'' 1000 (1000 + 1 / 20) = Drop \<and>
   ef_decide (Some 10) ''oldest'' ''high'' 1000 (1000 + 1 / 20) = Drop \<and>
   fv_chunk_loop (Some 10) ''oldest'' tm20 1 1000 [''a'', ''b''] =
     fv_chunk_loop (Some 10) ''oldest'' tm20 2 1000 [''b''] \<and>
   generate_decide (1 / 10) ''oldest'' 1000 (1000 + 1 / 20) = Delay (1 / 20) \<and>
   generate_decide (1 / 10) ''latest'' 1000 (1000 + 1 / 20) = Drop"
proof -
  note t = C4_oldest_policy[of "Some 10" 1000 "1000 + 1 / 20" "''high''" tm20 1 "[''b'']"
      "''a''" "1 / 10"]
  have h: "truthy (Some 10)" "(1000 + 1 / 20 :: rat) - 1000 < frame_interval_of (Some 10)"
    "fst (tm20 1) - 1000 < frame_interval_of (Some 10)" "''a'' \<noteq> []"
    "(0::rat) < 1 / 10" "(1000 + 1 / 20 :: rat) - 1000 < 1 / 10"
    by (simp_all add: truthy_def frame_interval_of_def tm20_def)
  from t h have a: "fv_decide (Some 10) ''oldest'' 1000 (1000 + 1 / 20) = Drop"
    "ef_decide (Some 10) ''oldest'' ''high'' 1000 (1000 + 1 / 20) = Drop"
    by blast+
  from t h have b: "fv_chunk_loop (Some 10) ''oldest'' tm20 1 1000 (''a'' # [''b'']) =
     fv_chunk_loop (Some 10) ''oldest'' tm20 (Suc 1) 1000 [''b'']"
    by blast
  from t h have c: "generate_decide (1 / 10) ''oldest'' 1000 (1000 + 1 / 20) =
      Delay (1 / 10 - (1000 + 1 / 20 - 1000))"
    "generate_decide (1 / 10) ''latest'' 1000 (1000 + 1 / 20) = Drop"
    by blast+
  from h a b c show ?thesis by (simp add: numeral_2_eq_2)
qed

text \<open>
  Claim C4 as stated fails in \<open>generate\<close>: 50 ms after an emission at 10 fps, \<open>oldest\<close>
  waits 50 ms and emits where \<open>latest\<close> drops.
\<close>

theorem C4_counterexample:
  "generate_decide (frame_interval_of (Some 10)) ''oldest'' 1000 (1000 + 1 / 20) = Delay (1 / 20) \<and>
   generate_decide (frame_interval_of (Some 10)) ''latest'' 1000 (1000 + 1 / 20) = Drop \<and>
   generate_decide (frame_interval_of (Some 10)) ''oldest'' 1000 (1000 + 1 / 20) \<noteq>
     generate_decide (frame_interval_of (Some 10)) ''latest'' 1000 (1000 + 1 / 20)"
  by (simp add: generate_decide_def frame_interval_of_def Let_def)


section \<open>Properties of the FrameTranscoder and of the framing\<close>
















lemma cfg_default_fields:
  "target_size cfg_default = None" "quality cfg_default = ''high''"
  "jpeg_quality cfg_default = 90" "frame_interval cfg_default = 0"
  "drop_strategy cfg_default = ''none''"
  by (simp_all add: cfg_default_def stream_cfg_of_def default_port_def default_fps_limit_def
      default_drop_strategy_def default_resolution_def default_quality_def target_size_of_def
      lower_def lower_char_def jpeg_quality_of_def quality_map_def frame_interval_of_def)



lemma transcode_decode_None:
  "imdecode cd f = Inr None \<Longrightarrow> transcode cd cfg f = Inr f"
  by (simp add: transcode_def)

lemma cfg_default_url: "droidcam_url cfg_default = ''http://192.168.1.5:4747/video''"
  by (simp add: cfg_default_def stream_cfg_of_def droidcam_url_of_def default_port_def
      default_fps_limit_def default_resolution_def lower_def lower_char_def str_int_def
      str_nat.simps digit_char_def Let_def)

lemma oversized_extracted:
  "pump [] [oversized_frame @ SOI @ ''ab'' @ EOI] =
     ([oversized_frame, SOI @ ''ab'' @ EOI], [])"
  by (simp add: feed_def extract_frames.simps py_find_def slice_def oversized_frame_def
      SOI_def EOI_def)

text \<open>
  Claim C7 fails on the code. When \<open>cv2.imdecode\<close> raises on a frame that reaches
  transcoding (nothing in the frame loop catches the exception), no part is yielded for
  that frame and none for any frame after it: the loop is left with the exception, and
  \<open>generate\<close> ends the response with the line \<open>Stream error\<close>.
\<close>

theorem C7_decoder_raises:
  assumes "imdecode cd f = Inl err"
    and "target_size cfg \<noteq> None \<or> quality_map (quality cfg) \<noteq> None"
    and "generate_decide (frame_interval cfg) (drop_strategy cfg) lst (fst (tm k)) \<noteq> Drop"
  shows "transcode cd cfg f = Inl err \<and>
         relay_frames cd cfg tm k lst (f # fs) = ([], Some err)"
proof -
  from assms(1,2) have t: "transcode cd cfg f = Inl err"
    by (simp add: transcode_def)
  with assms(3) have "frame_body cd cfg lst (tm k) f = Inl err"
    by (simp add: frame_body_def Let_def)
  with t show ?thesis by simp
qed

theorem C7_decoder_raises_witness:
  "imdecode toy_codec oversized_frame = Inl size_error \<and>
   quality_map (quality cfg_default) = Some 90 \<and>
   generate_decide (frame_interval cfg_default) (drop_strategy cfg_default) 0 (fst (tm20 0)) =
     Emit \<and>
   relay_frames toy_codec cfg_default tm20 0 0 [oversized_frame, SOI @ ''ab'' @ EOI] =
     ([], Some size_error) \<and>
   generate oversized_camera toy_codec cfg_default tm20 = [''Stream error: '' @ size_error]"
proof -
  have h: "imdecode toy_codec oversized_frame = Inl size_error"
    "target_size cfg_default \<noteq> None \<or> quality_map (quality cfg_default) \<noteq> None"
    "generate_decide (frame_interval cfg_default) (drop_strategy cfg_default) 0 (fst (tm20 0))
       \<noteq> Drop"
    by (simp_all add: toy_codec_def oversized_frame_def cfg_default_fields quality_map_def
        generate_decide_def)
  note r = C7_decoder_raises[where cd = toy_codec and f = oversized_frame and err = size_error
      and cfg = cfg_default and lst = 0 and tm = tm20 and k = 0
      and fs = "[SOI @ ''ab'' @ EOI]", OF h]
  then have run: "relay_frames toy_codec cfg_default tm20 0 0
      [oversized_frame, SOI @ ''ab'' @ EOI] = ([], Some size_error)"
    by (rule conjunct2)
  have ct: "status oversized_stream = 200"
    "\<not> sublist ''text/html'' (content_type_lower oversized_stream)"
    "chunks oversized_stream = [oversized_frame @ SOI @ ''ab'' @ EOI]"
    by (simp_all add: oversized_stream_def content_type_lower_def lower_def lower_char_def
        sublist_code)
  have "generate oversized_camera toy_codec cfg_default tm20 = [''Stream error: '' @ size_error]"
    unfolding generate_def oversized_camera_def fetch.case Let_def
    by (simp only: ct oversized_extracted run fst_conv simp_thms if_False if_True prod.case
        option.case list.map append_Nil)
  moreover have "quality_map (quality cfg_default) = Some 90"
    "generate_decide (frame_interval cfg_default) (drop_strategy cfg_default) 0 (fst (tm20 0)) =
       Emit"
    by (simp_all add: cfg_default_fields quality_map_def generate_decide_def)
  ultimately show ?thesis using h(1) run by blast
qed

text \<open>
  Claim C9. Assume that \<open>cv2.imencode\<close> reports success on every image that
  \<open>cv2.imdecode\<close> returns. With the default \<open>resolution\<close> (\<open>auto\<close>) and \<open>quality\<close> (\<open>high\<close>)
  there is no target size and the JPEG quality is 90, taken from the table high 90, medium
  75, low 60 and 85 for any other value; every frame that decodes is re-encoded at
  quality 90 and the encoder's output is what is forwarded; a frame on which the decoder
  returns \<open>None\<close> is forwarded with its original bytes; when the decoder raises nothing
  is forwarded; and whatever is forwarded is either the original bytes of a frame that
  did not decode or the encoder's output for the decoded image.
\<close>

theorem C9_default_reencodes:
  assumes "\<And>g img. imdecode cd g = Inr (Some img) \<Longrightarrow>
             \<exists>enc. imencode cd img 90 = Inr (Some enc)"
    and "cfg = stream_cfg_of py_int ip port fps_limit drop_strat
                 default_resolution default_quality"
  shows "target_size cfg = None \<and> jpeg_quality cfg = 90 \<and>
         (\<forall>img. imdecode cd f = Inr (Some img) \<longrightarrow>
            (\<exists>enc. imencode cd img 90 = Inr (Some enc) \<and> transcode cd cfg f = Inr enc)) \<and>
         (imdecode cd f = Inr None \<longrightarrow> transcode cd cfg f = Inr f) \<and>
         (\<forall>e. imdecode cd f = Inl e \<longrightarrow> transcode cd cfg f = Inl e) \<and>
         (\<forall>out. transcode cd cfg f = Inr out \<longrightarrow>
            (imdecode cd f = Inr None \<and> out = f) \<or>
            (\<exists>img. imdecode cd f = Inr (Some img) \<and> imencode cd img 90 = Inr (Some out))) \<and>
         jpeg_quality_of q =
           (if q = ''high'' then 90 else if q = ''medium'' then 75
            else if q = ''low'' then 60 else 85)"
proof -
  from assms(2) have c: "target_size cfg = None" "jpeg_quality cfg = 90"
    "quality cfg = ''high''"
    by (simp_all add: stream_cfg_of_def default_resolution_def default_quality_def
        target_size_of_def lower_def lower_char_def jpeg_quality_of_def quality_map_def)
  have t: "transcode cd cfg f =
      (case imdecode cd f of
         Inl err \<Rightarrow> Inl err
       | Inr None \<Rightarrow> Inr f
       | Inr (Some img) \<Rightarrow>
           (case imencode cd img 90 of
              Inl err \<Rightarrow> Inl err
            | Inr (Some enc) \<Rightarrow> Inr enc
            | Inr None \<Rightarrow> Inr f))"
    by (simp add: transcode_def c quality_map_def split: sum.splits option.splits)
  have 1: "\<exists>enc. imencode cd img 90 = Inr (Some enc) \<and> transcode cd cfg f = Inr enc"
    if "imdecode cd f = Inr (Some img)" for img
  proof -
    from assms(1)[OF that] obtain enc where "imencode cd img 90 = Inr (Some enc)" by blast
    with that t show ?thesis by simp
  qed
  have 2: "transcode cd cfg f = Inr f" if "imdecode cd f = Inr None"
    using that t by simp
  have 3: "(imdecode cd f = Inr None \<and> out = f) \<or>
           (\<exists>img. imdecode cd f = Inr (Some img) \<and> imencode cd img 90 = Inr (Some out))"
    if o: "transcode cd cfg f = Inr out" for out
  proof (cases "imdecode cd f")
    case (Inl err)
    with o t show ?thesis by simp
  next
    case (Inr r)
    show ?thesis
    proof (cases r)
      case None
      with Inr o t show ?thesis by simp
    next
      case (Some img)
      with Inr have d: "imdecode cd f = Inr (Some img)" by simp
      from 1[OF d] obtain enc where "imencode cd img 90 = Inr (Some enc)"
        "transcode cd cfg f = Inr enc" by blast
      with o d show ?thesis by simp
    qed
  qed
  have 4: "jpeg_quality_of q =
           (if q = ''high'' then 90 else if q = ''medium'' then 75
            else if q = ''low'' then 60 else 85)"
    by (simp add: jpeg_quality_of_def quality_map_def)
  have 5: "transcode cd cfg f = Inl e" if "imdecode cd f = Inl e" for e
    using that t by simp
  from c(1,2) 1 2 3 4 5 show ?thesis by blast
qed

theorem C9_default_reencodes_witness:
  "transcode toy_codec cfg_default (SOI @ ''ab'' @ EOI) = Inr (SOI @ ''90'' @ EOI) \<and>
   transcode toy_codec cfg_default ''junk'' = Inr ''junk'' \<and>
   jpeg_quality_of ''medium'' = 75 \<and> jpeg_quality_of ''ultra'' = 85"
proof -
  have h: "\<exists>enc. imencode toy_codec img 90 = Inr (Some enc)" for img
    by (simp add: toy_codec_def)
  note t1 = C9_default_reencodes[where cd = toy_codec and cfg = cfg_default
      and f = "SOI @ ''ab'' @ EOI" and q = "''medium''", OF h cfg_default_def]
  note t2 = C9_default_reencodes[where cd = toy_codec and cfg = cfg_default
      and f = "''junk''" and q = "''ultra''", OF h cfg_default_def]
  have d1: "imdecode toy_codec (SOI @ ''ab'' @ EOI) = Inr (Some (SOI @ ''ab'' @ EOI))"
    by (simp add: toy_codec_def oversized_frame_def SOI_def EOI_def)
  have e1: "imencode toy_codec (SOI @ ''ab'' @ EOI) 90 = Inr (Some (SOI @ ''90'' @ EOI))"
    by (simp add: toy_codec_def str_int_def str_nat.simps digit_char_def)
  have d2: "imdecode toy_codec ''junk'' = Inr None"
    by (simp add: toy_codec_def SOI_def)
  from t1 have "\<forall>img. imdecode toy_codec (SOI @ ''ab'' @ EOI) = Inr (Some img) \<longrightarrow>
      (\<exists>enc. imencode toy_codec img 90 = Inr (Some enc) \<and>
             transcode toy_codec cfg_default (SOI @ ''ab'' @ EOI) = Inr enc)"
    by (elim conjE)
  with d1 obtain enc where
    "imencode toy_codec (SOI @ ''ab'' @ EOI) 90 = Inr (Some enc)"
    "transcode toy_codec cfg_default (SOI @ ''ab'' @ EOI) = Inr enc"
    by blast
  with e1 have a: "transcode toy_codec cfg_default (SOI @ ''ab'' @ EOI) = Inr (SOI @ ''90'' @ EOI)"
    by simp
  from t2 have "imdecode toy_codec ''junk'' = Inr None \<longrightarrow>
      transcode toy_codec cfg_default ''junk'' = Inr ''junk''"
    by (elim conjE)
  with d2 have b: "transcode toy_codec cfg_default ''junk'' = Inr ''junk''"
    by (rule rev_mp)
  from t1 have c: "jpeg_quality_of ''medium'' = 75" by simp
  from t2 have d: "jpeg_quality_of ''ultra'' = 85" by simp
  from a b c d show ?thesis by blast
qed


section \<open>Properties of the endpoint selection\<close>

lemma try_endpoints_all_fail:
  "\<forall>e\<in>set es. \<not> accepted (sg e) \<Longrightarrow>
   try_endpoints sg tm fps ds q es = (es, [], False)"
proof (induction es)
  case Nil
  then show ?case by simp
next
  case (Cons e es)
  then have rest: "try_endpoints sg tm fps ds q es = (es, [], False)"
    and no: "\<not> accepted (sg e)" by simp_all
  from no show ?case
    by (cases "sg e") (simp_all add: rest accepted_def)
qed

lemma try_endpoints_first:
  assumes "\<forall>x\<in>set pre. \<not> accepted (sg x)" "sg e = Got r" "accepted (Got r)"
    "ends_normally r"
  shows "try_endpoints sg tm fps ds q (pre @ e # post) =
           (pre @ [e], ef_chunk_loop fps ds q (tm e) 0 0 (chunks r), True)"
  using assms(1)
proof (induction pre)
  case Nil
  obtain c out k where "try_endpoints sg tm fps ds q post = (c, out, k)"
    by (cases "try_endpoints sg tm fps ds q post")
  with assms(2-4) show ?case
    by (auto simp: accepted_def ends_normally_def Let_def)
next
  case (Cons x pre)
  then have rest: "try_endpoints sg tm fps ds q (pre @ e # post) =
           (pre @ [e], ef_chunk_loop fps ds q (tm e) 0 0 (chunks r), True)"
    and no: "\<not> accepted (sg x)" by simp_all
  from no show ?case
    by (cases "sg x") (simp_all add: rest accepted_def)
qed


lemma generate_only_url:
  "sg (droidcam_url cfg) = sg' (droidcam_url cfg) \<Longrightarrow>
   generate sg cd cfg tm = generate sg' cd cfg tm"
  by (simp add: generate_def)

lemma stream_cfg_url:
  "droidcam_url (stream_cfg_of py_int ip port fps ds res q) = droidcam_url_of ip port fps res"
  by (simp add: stream_cfg_of_def)

lemma droidcam_url_prefix:
  "prefix (''http://'' @ ip @ '':'' @ str_int port @ ''/video'') (droidcam_url_of ip port fps res)"
  by (simp add: droidcam_url_of_def Let_def)

lemma droidcam_url_default:
  "droidcam_url_of ip port default_fps_limit default_resolution =
     ''http://'' @ ip @ '':'' @ str_int port @ ''/video''"
  by (simp add: droidcam_url_of_def default_fps_limit_def default_resolution_def lower_def
      lower_char_def Let_def)

text \<open>
  Claim C8, as amended. \<open>stream_with_fps_limit\<close> requests its six candidate URLs in the
  fixed order \<open>/mjpegfeed\<close>, \<open>/video\<close>, \<open>/cam/1/stream\<close>, \<open>/cam/1/mjpeg\<close>, \<open>/\<close>, \<open>/stream\<close>
  and streams from the first whose response has status 200 and a content type containing
  \<open>multipart/x-mixed-replace\<close> or \<open>image/jpeg\<close>; when that body ends normally the
  candidates after it are not requested. When no candidate is accepted, all six have been
  requested and the caller gets HTTP 503 with a fixed message that names the address and
  port. \<open>stream_video\<close>, the \<open>/stream\<close> route, requests a single URL, which is
  \<open>http://ip:port/video\<close>, followed by query parameters when a resolution or an fps limit
  is given, and nothing else: what it yields depends on the upstream at that URL only,
  and an exception or a status other than 200 there ends the response with one diagnostic
  line.
\<close>

theorem C8_endpoint_priority:
  "stream_endpoints ip port =
     [''http://'' @ ip @ '':'' @ str_int port @ ''/mjpegfeed'',
      ''http://'' @ ip @ '':'' @ str_int port @ ''/video'',
      ''http://'' @ ip @ '':'' @ str_int port @ ''/cam/1/stream'',
      ''http://'' @ ip @ '':'' @ str_int port @ ''/cam/1/mjpeg'',
      ''http://'' @ ip @ '':'' @ str_int port @ ''/'',
      ''http://'' @ ip @ '':'' @ str_int port @ ''/stream''] \<and>
   (stream_endpoints ip port = pre @ e # post \<and>
    (\<forall>x\<in>set pre. \<not> accepted (sg x)) \<and>
    sg e = Got r \<and> status r = 200 \<and> mjpeg_type (content_type_lower r) \<and> ends_normally r \<longrightarrow>
      stream_with_fps_limit sg tm ip port fps ds res q =
        (pre @ [e], ef_chunk_loop fps ds q (tm e) 0 0 (chunks r), Returned)) \<and>
   ((\<forall>x\<in>set (stream_endpoints ip port). \<not> accepted (sg x)) \<longrightarrow>
      stream_with_fps_limit sg tm ip port fps ds res q =
        (stream_endpoints ip port, [], HTTPException 503 (error_msg ip port))) \<and>
   droidcam_url (stream_cfg_of py_int ip port fps ds res q) = droidcam_url_of ip port fps res \<and>
   prefix (''http://'' @ ip @ '':'' @ str_int port @ ''/video'')
     (droidcam_url_of ip port fps res) \<and>
   droidcam_url_of ip port default_fps_limit default_resolution =
     ''http://'' @ ip @ '':'' @ str_int port @ ''/video'' \<and>
   (sg (droidcam_url_of ip port fps res) = sg' (droidcam_url_of ip port fps res) \<longrightarrow>
      stream_video sg cd py_int tmf ip port fps ds res q =
        stream_video sg' cd py_int tmf ip port fps ds res q) \<and>
   (sg (droidcam_url_of ip port fps res) = Raised err \<longrightarrow>
      stream_video sg cd py_int tmf ip port fps ds res q = [''Stream error: '' @ err]) \<and>
   (sg (droidcam_url_of ip port fps res) = Got r' \<and> status r' \<noteq> 200 \<longrightarrow>
      stream_video sg cd py_int tmf ip port fps ds res q =
        [''DroidCam status '' @ str_int (status r')])"
proof (intro conjI impI)
  show "stream_endpoints ip port =
     [''http://'' @ ip @ '':'' @ str_int port @ ''/mjpegfeed'',
      ''http://'' @ ip @ '':'' @ str_int port @ ''/video'',
      ''http://'' @ ip @ '':'' @ str_int port @ ''/cam/1/stream'',
      ''http://'' @ ip @ '':'' @ str_int port @ ''/cam/1/mjpeg'',
      ''http://'' @ ip @ '':'' @ str_int port @ ''/'',
      ''http://'' @ ip @ '':'' @ str_int port @ ''/stream'']"
    by (simp add: stream_endpoints_def Let_def)
next
  assume a: "stream_endpoints ip port = pre @ e # post \<and>
    (\<forall>x\<in>set pre. \<not> accepted (sg x)) \<and>
    sg e = Got r \<and> status r = 200 \<and> mjpeg_type (content_type_lower r) \<and> ends_normally r"
  then have acc: "accepted (Got r)" by (simp add: accepted_def)
  from a have "try_endpoints sg tm fps ds q (pre @ e # post) =
           (pre @ [e], ef_chunk_loop fps ds q (tm e) 0 0 (chunks r), True)"
    using try_endpoints_first[of pre sg e r tm fps ds q post] acc by blast
  with a show "stream_with_fps_limit sg tm ip port fps ds res q =
        (pre @ [e], ef_chunk_loop fps ds q (tm e) 0 0 (chunks r), Returned)"
    by (simp add: stream_with_fps_limit_def)
next
  assume "\<forall>x\<in>set (stream_endpoints ip port). \<not> accepted (sg x)"
  then have "try_endpoints sg tm fps ds q (stream_endpoints ip port) =
      (stream_endpoints ip port, [], False)"
    by (rule try_endpoints_all_fail)
  then show "stream_with_fps_limit sg tm ip port fps ds res q =
        (stream_endpoints ip port, [], HTTPException 503 (error_msg ip port))"
    by (simp add: stream_with_fps_limit_def)
next
  show "droidcam_url (stream_cfg_of py_int ip port fps ds res q) = droidcam_url_of ip port fps res"
    by (rule stream_cfg_url)
next
  show "prefix (''http://'' @ ip @ '':'' @ str_int port @ ''/video'')
     (droidcam_url_of ip port fps res)"
    by (rule droidcam_url_prefix)
next
  show "droidcam_url_of ip port default_fps_limit default_resolution =
     ''http://'' @ ip @ '':'' @ str_int port @ ''/video''"
    by (rule droidcam_url_default)
next
  assume "sg (droidcam_url_of ip port fps res) = sg' (droidcam_url_of ip port fps res)"
  then show "stream_video sg cd py_int tmf ip port fps ds res q =
        stream_video sg' cd py_int tmf ip port fps ds res q"
    unfolding stream_video_def
    by (intro generate_only_url) (simp only: stream_cfg_url)
next
  assume "sg (droidcam_url_of ip port fps res) = Raised err"
  then show "stream_video sg cd py_int tmf ip port fps ds res q = [''Stream error: '' @ err]"
    by (simp add: stream_video_def generate_def stream_cfg_url)
next
  assume "sg (droidcam_url_of ip port fps res) = Got r' \<and> status r' \<noteq> 200"
  then show "stream_video sg cd py_int tmf ip port fps ds res q =
        [''DroidCam status '' @ str_int (status r')]"
    by (simp add: stream_video_def generate_def stream_cfg_url Let_def)
qed

lemma endpoints_10: "stream_endpoints ''10.0.0.2'' 4747 =
   [''http://10.0.0.2:4747/mjpegfeed'', ''http://10.0.0.2:4747/video'',
    ''http://10.0.0.2:4747/cam/1/stream'', ''http://10.0.0.2:4747/cam/1/mjpeg'',
    ''http://10.0.0.2:4747/'', ''http://10.0.0.2:4747/stream'']"
  by (simp add: stream_endpoints_def str_int_def str_nat.simps digit_char_def Let_def)

lemma mjpeg_stream_ok:
  "status mjpeg_stream = 200" "mjpeg_type (content_type_lower mjpeg_stream)"
  "ends_normally mjpeg_stream" "chunks mjpeg_stream = [''one'', ''two'']"
  by (simp_all add: mjpeg_stream_def mjpeg_type_def content_type_lower_def lower_def
      lower_char_def ends_normally_def sublist_code)

lemma html_page_rejected: "\<not> accepted (Got html_page)"
  by (simp add: accepted_def html_page_def mjpeg_type_def content_type_lower_def lower_def
      lower_char_def sublist_code)

theorem C8_endpoint_priority_witness:
  "stream_endpoints ''10.0.0.2'' 4747 =
     [''http://10.0.0.2:4747/mjpegfeed''] @ ''http://10.0.0.2:4747/video'' #
     [''http://10.0.0.2:4747/cam/1/stream'', ''http://10.0.0.2:4747/cam/1/mjpeg'',
      ''http://10.0.0.2:4747/'', ''http://10.0.0.2:4747/stream''] \<and>
   \<not> accepted (camera ''http://10.0.0.2:4747/mjpegfeed'') \<and>
   camera ''http://10.0.0.2:4747/video'' = Got mjpeg_stream \<and>
   status mjpeg_stream = 200 \<and> mjpeg_type (content_type_lower mjpeg_stream) \<and>
   ends_normally mjpeg_stream \<and>
   stream_with_fps_limit camera tm_all ''10.0.0.2'' 4747 None ''none'' ''auto'' ''high'' =
     ([''http://10.0.0.2:4747/mjpegfeed'', ''http://10.0.0.2:4747/video''],
      [''one'', ''two''], Returned) \<and>
   stream_with_fps_limit refusing tm_all ''10.0.0.2'' 4747 None ''none'' ''auto'' ''high'' =
     (stream_endpoints ''10.0.0.2'' 4747, [],
      HTTPException 503 (error_msg ''10.0.0.2'' 4747)) \<and>
   droidcam_url_of ''10.0.0.2'' 4747 None ''auto'' = ''http://10.0.0.2:4747/video'' \<and>
   refusing (droidcam_url_of ''10.0.0.2'' 4747 None ''auto'') = Raised ''Connection refused'' \<and>
   stream_video refusing toy_codec (\<lambda>s. None) tm20 ''10.0.0.2'' 4747 None ''none'' ''auto''
     ''high'' = [''Stream error: Connection refused''] \<and>
   head_unsupported (droidcam_url_of ''10.0.0.2'' 4747 None ''auto'') = Got not_found_page \<and>
   status not_found_page \<noteq> 200 \<and>
   stream_video head_unsupported toy_codec (\<lambda>s. None) tm20 ''10.0.0.2'' 4747 None ''none''
     ''auto'' ''high'' = [''DroidCam status 404'']"
proof -
  let ?pre = "[''http://10.0.0.2:4747/mjpegfeed'']"
  let ?e = "''http://10.0.0.2:4747/video''"
  let ?post = "[''http://10.0.0.2:4747/cam/1/stream'', ''http://10.0.0.2:4747/cam/1/mjpeg'',
      ''http://10.0.0.2:4747/'', ''http://10.0.0.2:4747/stream'']"
  have sp: "stream_endpoints ''10.0.0.2'' 4747 = ?pre @ ?e # ?post"
    by (simp add: endpoints_10)
  have rej: "\<not> accepted (camera ''http://10.0.0.2:4747/mjpegfeed'')"
    using html_page_rejected by (simp add: camera_def)
  then have pre: "\<forall>x\<in>set ?pre. \<not> accepted (camera x)" by simp
  have got: "camera ?e = Got mjpeg_stream" by (simp add: camera_def)
  have none: "\<forall>x\<in>set (stream_endpoints ''10.0.0.2'' 4747). \<not> accepted (refusing x)"
    by (simp add: accepted_def refusing_def)
  have loop: "ef_chunk_loop None ''none'' ''high'' (tm_all ?e) 0 0 (chunks mjpeg_stream) =
                [''one'', ''two'']"
    by (simp add: mjpeg_stream_ok ef_decide_def truthy_def Let_def)
  note t1 = C8_endpoint_priority[of "''10.0.0.2''" 4747 ?pre ?e ?post camera mjpeg_stream
      tm_all None "''none''" "''auto''" "''high''"]
  note t2 = C8_endpoint_priority[of "''10.0.0.2''" 4747 _ _ _ refusing _
      tm_all None "''none''" "''auto''" "''high''"]
  from t1 sp pre got mjpeg_stream_ok(1-3) have
    "stream_with_fps_limit camera tm_all ''10.0.0.2'' 4747 None ''none'' ''auto'' ''high'' =
       (?pre @ [?e], ef_chunk_loop None ''none'' ''high'' (tm_all ?e) 0 0 (chunks mjpeg_stream),
        Returned)"
    by blast
  then have a:
    "stream_with_fps_limit camera tm_all ''10.0.0.2'' 4747 None ''none'' ''auto'' ''high'' =
     ([''http://10.0.0.2:4747/mjpegfeed'', ''http://10.0.0.2:4747/video''],
      [''one'', ''two''], Returned)"
    by (simp only: loop append.simps)
  from t2 none have b:
    "stream_with_fps_limit refusing tm_all ''10.0.0.2'' 4747 None ''none'' ''auto'' ''high'' =
     (stream_endpoints ''10.0.0.2'' 4747, [],
      HTTPException 503 (error_msg ''10.0.0.2'' 4747))"
    by blast
  have u: "droidcam_url_of ''10.0.0.2'' 4747 None ''auto'' = ''http://10.0.0.2:4747/video''"
    by (simp add: droidcam_url_of_def lower_def lower_char_def str_int_def str_nat.simps
        digit_char_def Let_def)
  have h3: "refusing (droidcam_url_of ''10.0.0.2'' 4747 None ''auto'') =
              Raised ''Connection refused''"
    by (simp add: refusing_def)
  have h4: "head_unsupported (droidcam_url_of ''10.0.0.2'' 4747 None ''auto'') =
              Got not_found_page" "status not_found_page \<noteq> 200"
    by (simp_all add: head_unsupported_def not_found_page_def)
  note t3 = C8_endpoint_priority[where ip = "''10.0.0.2''" and port = 4747 and fps = None
      and res = "''auto''" and sg = refusing and err = "''Connection refused''"
      and cd = toy_codec and py_int = "\<lambda>s. None" and tmf = tm20 and ds = "''none''"
      and q = "''high''"]
  note t4 = C8_endpoint_priority[where ip = "''10.0.0.2''" and port = 4747 and fps = None
      and res = "''auto''" and sg = head_unsupported and r' = not_found_page
      and cd = toy_codec and py_int = "\<lambda>s. None" and tmf = tm20 and ds = "''none''"
      and q = "''high''"]
  from t3 h3 have c:
    "stream_video refusing toy_codec (\<lambda>s. None) tm20 ''10.0.0.2'' 4747 None ''none'' ''auto''
       ''high'' = [''Stream error: '' @ ''Connection refused'']"
    by blast
  from t4 h4 have d:
    "stream_video head_unsupported toy_codec (\<lambda>s. None) tm20 ''10.0.0.2'' 4747 None ''none''
       ''auto'' ''high'' = [''DroidCam status '' @ str_int (status not_found_page)]"
    by blast
  have e1: "''Stream error: '' @ ''Connection refused'' = ''Stream error: Connection refused''"
    "''DroidCam status '' @ str_int (status not_found_page) = ''DroidCam status 404''"
    by (simp_all add: not_found_page_def str_int_def str_nat.simps digit_char_def)
  from c d have c': "stream_video refusing toy_codec (\<lambda>s. None) tm20 ''10.0.0.2'' 4747 None
       ''none'' ''auto'' ''high'' = [''Stream error: Connection refused'']"
    and d': "stream_video head_unsupported toy_codec (\<lambda>s. None) tm20 ''10.0.0.2'' 4747 None
       ''none'' ''auto'' ''high'' = [''DroidCam status 404'']"
    by (simp_all only: e1)
  from sp rej got mjpeg_stream_ok(1-3) a b u h3 h4 c' d' show ?thesis by blast
qed

text \<open>
  Claim C8 as stated fails. When every candidate refuses the connection the failure is
  the fixed 503 message, which lists no attempt, and it is the same when every candidate
  answers with an HTML page instead. When the body of the first accepted candidate raises
  after a chunk, the next candidate is requested and streamed as well.
\<close>

theorem C8_counterexample:
  "stream_with_fps_limit refusing tm_all ''10.0.0.2'' 4747 None ''none'' ''auto'' ''high'' =
     ([''http://10.0.0.2:4747/mjpegfeed'', ''http://10.0.0.2:4747/video'',
       ''http://10.0.0.2:4747/cam/1/stream'', ''http://10.0.0.2:4747/cam/1/mjpeg'',
       ''http://10.0.0.2:4747/'', ''http://10.0.0.2:4747/stream''],
      [],
      HTTPException 503
        (''No DroidCam streams found at 10.0.0.2:4747. Check: 1) DroidCam app is running '' @
         ''2) Phone IP is correct 3) Same WiFi network'')) \<and>
   stream_with_fps_limit html_only tm_all ''10.0.0.2'' 4747 None ''none'' ''auto'' ''high'' =
     stream_with_fps_limit refusing tm_all ''10.0.0.2'' 4747 None ''none'' ''auto'' ''high'' \<and>
   stream_with_fps_limit flaky_camera tm_all ''10.0.0.2'' 4747 None ''none'' ''auto'' ''high'' =
     ([''http://10.0.0.2:4747/mjpegfeed'', ''http://10.0.0.2:4747/video''],
      [''zero'', ''one'', ''two''], Returned)"
  by (simp add: stream_with_fps_limit_def endpoints_10 refusing_def html_only_def html_page_def
      flaky_camera_def broken_stream_def mjpeg_stream_def error_msg_def str_int_def
      str_nat.simps digit_char_def mjpeg_type_def content_type_lower_def lower_def
      lower_char_def sublist_code ef_decide_def truthy_def Let_def)


section \<open>Properties of the endpoint scans\<close>

text \<open>
  Claim C5, as amended. \<open>scan_endpoints\<close> of \<open>ef.py\<close> reports \<open>available\<close> exactly when the
  lower-cased content type contains \<open>multipart/x-mixed-replace\<close> or \<open>image/jpeg\<close>, whatever
  the status code, which it only records; every other response is \<open>not_mjpeg\<close>, so a
  \<open>text/html\<close> response is \<open>not_mjpeg\<close>, never \<open>error\<close> and never \<open>available\<close>; \<open>error\<close> is
  reported exactly when the request raises. \<open>scan_endpoints\<close> of \<open>cv.py\<close> keeps the HEAD
  response when its status is below 400 and the GET response otherwise, and marks the
  endpoint available exactly when the status of the response kept is 200, whatever the
  content type.
\<close>

theorem C5_scan_classification:
  "scan_one (Raised err) = Scan_error err \<and>
   scan_one (Got r) =
     (if sublist ''multipart/x-mixed-replace'' (content_type_lower r) \<or>
         sublist ''image/jpeg'' (content_type_lower r)
      then Available (content_type_lower r) (status r)
      else Not_mjpeg (content_type_lower r) (status r)) \<and>
   (content_type_lower r = ''text/html'' \<longrightarrow>
      scan_one (Got r) = Not_mjpeg ''text/html'' (status r)) \<and>
   (requests_head url = Got hr \<and> status hr < 400 \<longrightarrow>
      cv_scan_one requests_head requests_get decode url =
        Probed url (status hr) (case content_type hr of None \<Rightarrow> [] | Some v \<Rightarrow> v)
          (status hr = 200) []) \<and>
   (requests_head url = Got hr \<and> 400 \<le> status hr \<and> requests_get url = Got gr \<longrightarrow>
      cv_scan_one requests_head requests_get decode url =
        Probed url (status gr) (case content_type gr of None \<Rightarrow> [] | Some v \<Rightarrow> v)
          (status gr = 200)
          (case chunks gr of [] \<Rightarrow> [] | c # cs \<Rightarrow> decode (take 200 c)))"
proof (intro conjI impI)
  show "scan_one (Raised err) = Scan_error err"
    by (simp add: scan_one_def)
  show "scan_one (Got r) =
     (if sublist ''multipart/x-mixed-replace'' (content_type_lower r) \<or>
         sublist ''image/jpeg'' (content_type_lower r)
      then Available (content_type_lower r) (status r)
      else Not_mjpeg (content_type_lower r) (status r))"
    by (simp add: scan_one_def Let_def)
next
  assume h: "content_type_lower r = ''text/html''"
  have "\<not> sublist ''multipart/x-mixed-replace'' ''text/html''"
    "\<not> sublist ''image/jpeg'' ''text/html''"
    by (simp_all add: sublist_code)
  with h show "scan_one (Got r) = Not_mjpeg ''text/html'' (status r)"
    by (simp add: scan_one_def Let_def)
next
  assume "requests_head url = Got hr \<and> status hr < 400"
  then show "cv_scan_one requests_head requests_get decode url =
        Probed url (status hr) (case content_type hr of None \<Rightarrow> [] | Some v \<Rightarrow> v)
          (status hr = 200) []"
    by (simp add: cv_scan_one_def)
next
  assume "requests_head url = Got hr \<and> 400 \<le> status hr \<and> requests_get url = Got gr"
  then show "cv_scan_one requests_head requests_get decode url =
        Probed url (status gr) (case content_type gr of None \<Rightarrow> [] | Some v \<Rightarrow> v)
          (status gr = 200)
          (case chunks gr of [] \<Rightarrow> [] | c # cs \<Rightarrow> decode (take 200 c))"
    by (simp add: cv_scan_one_def)
qed

theorem C5_scan_classification_witness:
  "content_type_lower html_page = ''text/html'' \<and>
   scan_one (Got html_page) = Not_mjpeg ''text/html'' 200 \<and>
   html_only ''http://10.0.0.2:4747/video'' = Got html_page \<and> status html_page < 400 \<and>
   cv_scan_one html_only refusing id ''http://10.0.0.2:4747/video'' =
     Probed ''http://10.0.0.2:4747/video'' 200 ''text/html'' True [] \<and>
   head_unsupported ''http://10.0.0.2:4747/video'' = Got not_found_page \<and>
   400 \<le> status not_found_page \<and>
   cv_scan_one head_unsupported html_only id ''http://10.0.0.2:4747/video'' =
     Probed ''http://10.0.0.2:4747/video'' 200 ''text/html'' True ''<html>''"
proof -
  let ?u = "''http://10.0.0.2:4747/video''"
  have h1: "content_type_lower html_page = ''text/html''"
    by (simp add: html_page_def content_type_lower_def lower_def lower_char_def)
  have h2: "html_only ?u = Got html_page" "status html_page < 400"
    by (simp_all add: html_only_def html_page_def)
  have h3: "head_unsupported ?u = Got not_found_page" "400 \<le> status not_found_page"
    by (simp_all add: head_unsupported_def not_found_page_def)
  have f: "status html_page = 200" "content_type html_page = Some ''text/html''"
    "chunks html_page = [''<html>'']"
    by (simp_all add: html_page_def)
  note t1 = C5_scan_classification[of _ html_page html_only ?u html_page refusing id]
  note t2 = C5_scan_classification[of _ html_page head_unsupported ?u not_found_page
      html_only id html_page]
  from t1 h1 have a: "scan_one (Got html_page) = Not_mjpeg ''text/html'' (status html_page)"
    by blast
  from t1 h2 have b: "cv_scan_one html_only refusing id ?u =
      Probed ?u (status html_page)
        (case content_type html_page of None \<Rightarrow> [] | Some v \<Rightarrow> v)
        (status html_page = 200) []"
    by blast
  from t2 h2(1) h3 have c: "cv_scan_one head_unsupported html_only id ?u =
      Probed ?u (status html_page)
        (case content_type html_page of None \<Rightarrow> [] | Some v \<Rightarrow> v)
        (status html_page = 200)
        (case chunks html_page of [] \<Rightarrow> [] | c # cs \<Rightarrow> id (take 200 c))"
    by blast
  from a have a': "scan_one (Got html_page) = Not_mjpeg ''text/html'' 200"
    by (simp only: f)
  from b have b': "cv_scan_one html_only refusing id ?u = Probed ?u 200 ''text/html'' True []"
    by (simp add: f)
  from c have c': "cv_scan_one head_unsupported html_only id ?u =
      Probed ?u 200 ''text/html'' True ''<html>''"
    by (simp add: f)
  from h1 h2 h3 a' b' c' show ?thesis by blast
qed

text \<open>
  Claim C5 as stated fails in both scans: \<open>ef.py\<close> reports a 404 response with content
  type \<open>image/jpeg\<close> as available, and \<open>cv.py\<close> reports a 200 response with content type
  \<open>text/html\<close> as available.
\<close>

theorem C5_counterexample:
  "scan_one (Got jpeg_404) = Available ''image/jpeg'' 404 \<and>
   cv_scan_one html_only refusing id ''http://10.0.0.2:4747/video'' =
     Probed ''http://10.0.0.2:4747/video'' 200 ''text/html'' True []"
  by (simp add: scan_one_def jpeg_404_def content_type_lower_def lower_def lower_char_def
      sublist_code cv_scan_one_def html_only_def html_page_def Let_def)

end
